theory Spec2Isabelle
  imports Complex_Main "HOL-Library.Word"
begin

section \<open>Values shared by the two source files\<close>

text \<open>
  A JavaScript exception is either an instance of \<open>Error\<close> carrying its message, or some
  other thrown value. The \<open>catch\<close> of \<open>handleSubmit\<close> (App.tsx line 79) tells the two apart
  with \<open>err instanceof Error\<close>.
\<close>

datatype js_exn = Error string | NonError

type_synonym byte = "8 word"

text \<open>
  An \<open>AudioBuffer\<close>: one array of samples per channel and the sample rate. A sample is a
  16-bit integer divided by \<open>2 ^ 15\<close>, which binary floating point represents exactly, so
  samples are modelled as the real numbers they denote.
\<close>

record audio_buffer =
  channelData :: "real list list"
  buf_sampleRate :: int

section \<open>src/services/geminiService.ts\<close>

text \<open>
  The part of the response of \<open>ai.models.generateContent\<close> that the code reads:
  \<open>response.text\<close> and \<open>response.candidates?.[0]?.content?.parts?.[0]?.inlineData?.data\<close>.
  Every link of the optional chain may be missing.
\<close>

record inline_data =
  data :: "string option"

record part =
  inlineData :: "inline_data option"

record content =
  parts :: "part list option"

record candidate =
  content :: "content option"

record gen_response =
  response_text :: string
  candidates :: "candidate list option"

text \<open>
  The two requests the service sends: a plain prompt to a text model, and a prompt to the
  speech model with a prebuilt voice.
\<close>

datatype request =
  TextRequest string string
| SpeechRequest string string string

type_synonym generate_content = "request \<Rightarrow> js_exn + gen_response"

text \<open>\<open>xs?.[0]\<close>: the first element, \<open>undefined\<close> on an empty array.\<close>

definition first_elem :: "'a list \<Rightarrow> 'a option" where
  "first_elem xs = (case xs of [] \<Rightarrow> None | x # _ \<Rightarrow> Some x)"

text \<open>
  JavaScript truthiness of a value that is a string, \<open>undefined\<close> or \<open>null\<close>: falsy when
  absent and when the empty string.
\<close>

definition falsy :: "string option \<Rightarrow> bool" where
  "falsy v = (case v of None \<Rightarrow> True | Some str \<Rightarrow> str = [])"

text \<open>\<open>summarizeArticleFromUrl\<close> (geminiService.ts lines 12 to 24).\<close>

definition summarizeArticleFromUrl :: "generate_content \<Rightarrow> string \<Rightarrow> js_exn + string" where
  "summarizeArticleFromUrl generateContent url_arg =
     (let prompt = ''Please provide a concise, neutral summary of the key points from the news article at this URL: ''
                   @ url_arg
                   @ ''. The summary should be suitable for a commuter to listen to, focusing on the main takeaways.''
      in case generateContent (TextRequest ''gemini-2.5-flash'' prompt) of
           Inl err \<Rightarrow> Inl (Error ''Failed to get summary from the article URL.'')
         | Inr response \<Rightarrow> Inr (response_text response))"

text \<open>
  The optional chain of line 41: \<open>None\<close> is \<open>undefined\<close>.
\<close>

definition inline_audio :: "gen_response \<Rightarrow> string option" where
  "inline_audio response =
     Option.bind (Option.bind (Option.bind (Option.bind (Option.bind (Option.bind
       (candidates response) first_elem) content) parts) first_elem) inlineData) data"

text \<open>
  \<open>generateSpeechFromText\<close> (geminiService.ts lines 26 to 47). The result \<open>None\<close> is the
  \<open>null\<close> of \<open>base64Audio || null\<close>.
\<close>

definition generateSpeechFromText :: "generate_content \<Rightarrow> string \<Rightarrow> js_exn + string option" where
  "generateSpeechFromText generateContent text_arg =
     (let prompt = ''Say in a clear and engaging news-reader voice: '' @ text_arg
      in case generateContent (SpeechRequest ''gemini-2.5-flash-preview-tts'' prompt ''Kore'') of
           Inl err \<Rightarrow> Inl (Error ''Failed to convert summary to audio.'')
         | Inr response \<Rightarrow>
             (let base64Audio = inline_audio response
              in Inr (if falsy base64Audio then None else base64Audio)))"

section \<open>src/App.tsx: the state\<close>

text \<open>
  The Web Audio objects the component holds. An \<open>AudioContext\<close> has a \<open>state\<close> attribute;
  \<open>resume()\<close> returns a promise and leaves \<open>state\<close> as it is until that promise settles, so
  the context counts the resume requests that have not settled yet.
\<close>

datatype ctx_state = Suspended | Running | Closed

record audio_context =
  ctx_state :: ctx_state
  ctx_sampleRate :: int
  resume_pending :: nat

text \<open>
  An \<open>AudioBufferSourceNode\<close>. The only function the program ever assigns to \<open>onended\<close> is
  the closure of App.tsx lines 97 to 100. A node is \<open>Unscheduled\<close> until \<open>start\<close>, then
  \<open>Started\<close> (the active, sound-producing instance), then \<open>Finished\<close> after \<open>stop\<close> or when
  its buffer has been played; the \<open>ended\<close> event is delivered later, in a turn of the event loop of its own.
\<close>

datatype handler = EndedHandler

datatype play_state = Unscheduled | Started | Finished

record source_node =
  node_buffer :: "audio_buffer option"
  connected :: bool
  onended :: "handler option"
  playState :: play_state
  start_when :: "nat option"
  ended_pending :: bool

text \<open>The calls the component makes on its collaborators, in the order it makes them.\<close>

datatype api_call =
  CtxResume
| CreateBufferSource nat
| SetBuffer nat
| Connect nat
| SetOnended nat "handler option"
| NodeStart nat nat
| NodeStop nat
| NewAudioContext int
| CallDecode string
| CallDecodeAudioData "byte list"

text \<open>
  The component's six state variables and two refs (App.tsx lines 26 to 34), the source
  nodes created so far (a ref holds the index of its node) and the call log.
\<close>

record app_state =
  url :: string
  summary :: string
  isLoading :: bool
  error :: "string option"
  audioBuffer :: "audio_buffer option"
  isPlaying :: bool
  audioContextRef :: "audio_context option"
  audioSourceRef :: "nat option"
  nodes :: "source_node list"
  calls :: "api_call list"

definition initial_state :: app_state where
  "initial_state =
     \<lparr>url = [], summary = [], isLoading = False, error = None, audioBuffer = None,
      isPlaying = False, audioContextRef = None, audioSourceRef = None, nodes = [], calls = []\<rparr>"

text \<open>
  What App.tsx imports or takes from the platform: the model service, the \<open>AudioContext\<close>
  constructor, and \<open>decode\<close> and \<open>decodeAudioData\<close> of \<open>./utils/audio\<close>. Each may throw.
\<close>

record env =
  generateContent :: generate_content
  newAudioContext :: "int \<Rightarrow> js_exn + audio_context"
  utils_decode :: "string \<Rightarrow> js_exn + byte list"
  utils_decodeAudioData :: "byte list \<Rightarrow> audio_context \<Rightarrow> int \<Rightarrow> int \<Rightarrow> js_exn + audio_buffer"

section \<open>src/App.tsx: the Web Audio calls\<close>

text \<open>
  The methods of the platform that the component calls, each appending itself to the
  call log. A ref always points to a node that exists, so \<open>n\<close> is below \<open>length (nodes s)\<close>
  wherever the program runs them.
\<close>

definition update_node :: "nat \<Rightarrow> (source_node \<Rightarrow> source_node) \<Rightarrow> app_state \<Rightarrow> app_state" where
  "update_node n f s = s\<lparr>nodes := (nodes s)[n := f (nodes s ! n)]\<rparr>"

definition log_call :: "api_call \<Rightarrow> app_state \<Rightarrow> app_state" where
  "log_call c s = s\<lparr>calls := calls s @ [c]\<rparr>"

text \<open>\<open>audioContextRef.current.resume()\<close>: requested, not yet settled.\<close>

definition ctx_resume :: "app_state \<Rightarrow> app_state" where
  "ctx_resume s =
     log_call CtxResume
       (s\<lparr>audioContextRef :=
            map_option (\<lambda>ctx. ctx\<lparr>resume_pending := Suc (resume_pending ctx)\<rparr>) (audioContextRef s)\<rparr>)"

text \<open>\<open>createBufferSource()\<close>: a fresh node, returned by its index.\<close>

definition createBufferSource :: "app_state \<Rightarrow> nat \<times> app_state" where
  "createBufferSource s =
     (let source = length (nodes s)
      in (source,
          log_call (CreateBufferSource source)
            (s\<lparr>nodes := nodes s @
                 [\<lparr>node_buffer = None, connected = False, onended = None,
                   playState = Unscheduled, start_when = None, ended_pending = False\<rparr>]\<rparr>)))"

definition set_buffer :: "nat \<Rightarrow> audio_buffer \<Rightarrow> app_state \<Rightarrow> app_state" where
  "set_buffer n b s = log_call (SetBuffer n) (update_node n (\<lambda>nd. nd\<lparr>node_buffer := Some b\<rparr>) s)"

definition node_connect :: "nat \<Rightarrow> app_state \<Rightarrow> app_state" where
  "node_connect n s = log_call (Connect n) (update_node n (\<lambda>nd. nd\<lparr>connected := True\<rparr>) s)"

definition set_onended :: "nat \<Rightarrow> handler option \<Rightarrow> app_state \<Rightarrow> app_state" where
  "set_onended n h s = log_call (SetOnended n h) (update_node n (\<lambda>nd. nd\<lparr>onended := h\<rparr>) s)"

text \<open>
  \<open>start(when)\<close> throws \<open>InvalidStateError\<close> on a node that has been started before.
\<close>

definition node_start :: "nat \<Rightarrow> nat \<Rightarrow> app_state \<Rightarrow> js_exn + app_state" where
  "node_start n w s =
     (if playState (nodes s ! n) \<noteq> Unscheduled then Inl (Error ''InvalidStateError'')
      else Inr (log_call (NodeStart n w)
                  (update_node n (\<lambda>nd. nd\<lparr>playState := Started, start_when := Some w\<rparr>) s)))"

text \<open>
  \<open>stop()\<close> throws \<open>InvalidStateError\<close> on a node that has never been started. On a
  sounding node it ends the sound and queues the \<open>ended\<close> event; on a finished node it
  changes nothing.
\<close>

definition node_stop :: "nat \<Rightarrow> app_state \<Rightarrow> js_exn + app_state" where
  "node_stop n s =
     (if playState (nodes s ! n) = Unscheduled then Inl (Error ''InvalidStateError'')
      else Inr (log_call (NodeStop n)
                  (update_node n
                     (\<lambda>nd. if playState nd = Started
                           then nd\<lparr>playState := Finished, ended_pending := True\<rparr> else nd) s)))"

section \<open>src/App.tsx: the component's functions\<close>

text \<open>\<open>stopPlayback\<close> (lines 36 to 43).\<close>

definition stopPlayback :: "app_state \<Rightarrow> js_exn + app_state" where
  "stopPlayback s =
     (case audioSourceRef s of
        Some n \<Rightarrow>
          (case node_stop n (set_onended n None s) of
             Inl e \<Rightarrow> Inl e
           | Inr s' \<Rightarrow> Inr (s'\<lparr>audioSourceRef := None, isPlaying := False\<rparr>))
      | None \<Rightarrow> Inr (s\<lparr>isPlaying := False\<rparr>))"

text \<open>
  \<open>togglePlayback\<close> (lines 85 to 105) is made by \<open>useCallback\<close> with the dependencies
  \<open>isPlaying\<close>, \<open>audioBuffer\<close> and \<open>stopPlayback\<close>: the callback holds the \<open>isPlaying\<close> and the
  \<open>audioBuffer\<close> of the render that made it, here its first two arguments, while the two
  refs are read from the current state. The call of \<open>resume()\<close> on line 91 is not awaited:
  the function goes on to line 94 with the promise still pending.
\<close>

definition togglePlayback :: "bool \<Rightarrow> audio_buffer option \<Rightarrow> app_state \<Rightarrow> js_exn + app_state" where
  "togglePlayback isPlaying_seen audioBuffer_seen s =
     (if isPlaying_seen then stopPlayback s
      else (case (audioBuffer_seen, audioContextRef s) of
              (Some buf, Some ctx) \<Rightarrow>
                (let s1 = (if ctx_state ctx = Suspended then ctx_resume s else s);
                     (source, s2) = createBufferSource s1;
                     s3 = set_buffer source buf s2;
                     s4 = node_connect source s3;
                     s5 = set_onended source (Some EndedHandler) s4
                 in case node_start source 0 s5 of
                      Inl e \<Rightarrow> Inl e
                    | Inr s6 \<Rightarrow> Inr (s6\<lparr>audioSourceRef := Some source, isPlaying := True\<rparr>))
            | _ \<Rightarrow> Inr s))"

text \<open>
  The closure assigned to \<open>onended\<close> (lines 97 to 100).
\<close>

definition run_handler :: "handler \<Rightarrow> app_state \<Rightarrow> app_state" where
  "run_handler h s = (case h of EndedHandler \<Rightarrow> s\<lparr>isPlaying := False, audioSourceRef := None\<rparr>)"

text \<open>
  \<open>String.prototype.trim\<close> on a string of 8-bit code units: the white space of ECMAScript
  below 256 is tab, line feed, vertical tab, form feed, carriage return, space and the
  no-break space.
\<close>

definition is_white_space :: "char \<Rightarrow> bool" where
  "is_white_space c = (of_char c \<in> {9, 10, 11, 12, 13, 32, 160 :: nat})"

definition trim :: "string \<Rightarrow> string" where
  "trim str = rev (dropWhile is_white_space (rev (dropWhile is_white_space str)))"

text \<open>
  \<open>handleSubmit\<close> (lines 45 to 83) is an async function: it runs to its first \<open>await\<close>,
  and each time an awaited promise settles it runs on to the next one. The pieces below
  are its body cut at the three awaits; each takes the awaited result as an argument.
  \<open>e.preventDefault()\<close> and \<open>console.error\<close> change no state of the component. The function
  is made anew by every render and holds the \<open>url\<close> of that render; \<open>url\<close> is set by the
  input's change handler only, after which the component renders before the next event,
  so the \<open>url\<close> the function holds is the one of the state.
\<close>

text \<open>The message that line 79 shows for a caught exception.\<close>

definition error_message :: "js_exn \<Rightarrow> string" where
  "error_message err =
     (case err of
        Error message \<Rightarrow> message
      | NonError \<Rightarrow> ''An unknown error occurred. Please try again.'')"

text \<open>The \<open>catch\<close> and \<open>finally\<close> blocks (lines 77 to 82).\<close>

definition handleSubmit_catch :: "js_exn \<Rightarrow> app_state \<Rightarrow> app_state" where
  "handleSubmit_catch err s = (s\<lparr>error := Some (error_message err)\<rparr>)\<lparr>isLoading := False\<rparr>"

text \<open>
  Lines 46 to 59, up to the call of \<open>summarizeArticleFromUrl(url)\<close>. The second component
  is the URL passed to that call, or \<open>None\<close> when the function has returned on line 49.
  \<open>stopPlayback\<close> is called outside the \<open>try\<close>, so an exception of it is not caught.
\<close>

definition handleSubmit_enter :: "app_state \<Rightarrow> js_exn + (app_state \<times> string option)" where
  "handleSubmit_enter s =
     (if trim (url s) = [] then Inr (s\<lparr>error := Some ''Please enter a valid URL.''\<rparr>, None)
      else (case stopPlayback
                   (s\<lparr>isLoading := True, error := None, summary := [], audioBuffer := None\<rparr>) of
              Inl e \<Rightarrow> Inl e
            | Inr s' \<Rightarrow> Inr (s', Some (url s))))"

text \<open>
  Lines 59 to 62, from the result of \<open>summarizeArticleFromUrl\<close> to the call of
  \<open>generateSpeechFromText(summaryText)\<close>. The second component is that call's argument, or
  \<open>None\<close> when the function has ended through \<open>catch\<close>.
\<close>

definition handleSubmit_afterSummary :: "js_exn + string \<Rightarrow> app_state \<Rightarrow> app_state \<times> string option" where
  "handleSubmit_afterSummary r s =
     (case r of
        Inl err \<Rightarrow> (handleSubmit_catch err s, None)
      | Inr summaryText \<Rightarrow> (s\<lparr>summary := summaryText\<rparr>, Some summaryText))"

text \<open>
  Lines 67 to 71: the context is created on first use. \<open>Inl\<close> is an exception of the
  constructor, with the state in which it was thrown.
\<close>

definition ensure_context :: "env \<Rightarrow> app_state \<Rightarrow> (js_exn \<times> app_state) + (audio_context \<times> app_state)" where
  "ensure_context env s =
     (case audioContextRef s of
        Some ctx \<Rightarrow> Inr (ctx, s)
      | None \<Rightarrow>
          (case newAudioContext env 24000 of
             Inl err \<Rightarrow> Inl (err, log_call (NewAudioContext 24000) s)
           | Inr ctx \<Rightarrow> Inr (ctx, log_call (NewAudioContext 24000) (s\<lparr>audioContextRef := Some ctx\<rparr>))))"

text \<open>
  Lines 62 to 74, from the result of \<open>generateSpeechFromText\<close> to the call of
  \<open>decodeAudioData(decodedBytes, audioContextRef.current, 24000, 1)\<close>. The second component
  holds the first two arguments of that call. \<open>!audioB64\<close> on line 63 is true of \<open>null\<close>
  and of the empty string.
\<close>

definition handleSubmit_afterSpeech ::
  "env \<Rightarrow> js_exn + string option \<Rightarrow> app_state \<Rightarrow> app_state \<times> (byte list \<times> audio_context) option" where
  "handleSubmit_afterSpeech env r s =
     (case r of
        Inl err \<Rightarrow> (handleSubmit_catch err s, None)
      | Inr None \<Rightarrow> (handleSubmit_catch (Error ''Failed to generate audio.'') s, None)
      | Inr (Some audioB64) \<Rightarrow>
          if audioB64 = [] then (handleSubmit_catch (Error ''Failed to generate audio.'') s, None)
          else
            (case ensure_context env s of
               Inl (err, s1) \<Rightarrow> (handleSubmit_catch err s1, None)
             | Inr (ctx, s1) \<Rightarrow>
                 (let s2 = log_call (CallDecode audioB64) s1
                  in case utils_decode env audioB64 of
                       Inl err \<Rightarrow> (handleSubmit_catch err s2, None)
                     | Inr decodedBytes \<Rightarrow>
                         (log_call (CallDecodeAudioData decodedBytes) s2, Some (decodedBytes, ctx)))))"

text \<open>Lines 74 to 82, from the result of \<open>decodeAudioData\<close> to the end.\<close>

definition handleSubmit_afterConvert :: "js_exn + audio_buffer \<Rightarrow> app_state \<Rightarrow> app_state" where
  "handleSubmit_afterConvert r s =
     (case r of
        Inl err \<Rightarrow> handleSubmit_catch err s
      | Inr buffer \<Rightarrow> (s\<lparr>audioBuffer := Some buffer\<rparr>)\<lparr>isLoading := False\<rparr>)"

text \<open>
  One run of \<open>handleSubmit\<close> with nothing else happening at its awaits. \<open>Inl\<close> is a
  rejected promise: an exception that left the function.
\<close>

definition handleSubmit :: "env \<Rightarrow> app_state \<Rightarrow> js_exn + app_state" where
  "handleSubmit env s =
     (case handleSubmit_enter s of
        Inl e \<Rightarrow> Inl e
      | Inr (s1, None) \<Rightarrow> Inr s1
      | Inr (s1, Some url_arg) \<Rightarrow>
          Inr (case handleSubmit_afterSummary
                      (summarizeArticleFromUrl (generateContent env) url_arg) s1 of
                 (s2, None) \<Rightarrow> s2
               | (s2, Some summaryText) \<Rightarrow>
                   (case handleSubmit_afterSpeech env
                           (generateSpeechFromText (generateContent env) summaryText) s2 of
                      (s3, None) \<Rightarrow> s3
                    | (s3, Some (decodedBytes, ctx)) \<Rightarrow>
                        handleSubmit_afterConvert
                          (utils_decodeAudioData env decodedBytes ctx 24000 1) s3)))"

section \<open>The component as an event system\<close>

text \<open>
  JavaScript runs one handler at a time. Between two handlers of the component the platform may
  deliver any of these: the user types a URL, submits the form or presses the play button;
  a promise awaited by a run of \<open>handleSubmit\<close> settles, with any result; a sounding node
  reaches the end of its buffer; a queued \<open>ended\<close> event is delivered; a pending
  \<open>resume()\<close> settles.
\<close>

text \<open>A node has played its buffer to the end: the sound stops, the event is queued.\<close>

definition sound_ends :: "nat \<Rightarrow> app_state \<Rightarrow> app_state" where
  "sound_ends n s =
     (if n < length (nodes s) \<and> playState (nodes s ! n) = Started
      then update_node n (\<lambda>nd. nd\<lparr>playState := Finished, ended_pending := True\<rparr>) s
      else s)"

text \<open>The queued \<open>ended\<close> event of a node is delivered to whatever \<open>onended\<close> holds then.\<close>

definition dispatch_ended :: "nat \<Rightarrow> app_state \<Rightarrow> app_state" where
  "dispatch_ended n s =
     (if n < length (nodes s) \<and> ended_pending (nodes s ! n)
      then (let s1 = update_node n (\<lambda>nd. nd\<lparr>ended_pending := False\<rparr>) s
            in case onended (nodes s ! n) of
                 None \<Rightarrow> s1
               | Some h \<Rightarrow> run_handler h s1)
      else s)"

text \<open>The pending resume requests of the context settle: a suspended context runs.\<close>

definition resume_settles :: "app_state \<Rightarrow> app_state" where
  "resume_settles s =
     s\<lparr>audioContextRef :=
         map_option
           (\<lambda>ctx. if 0 < resume_pending ctx
                  then ctx\<lparr>ctx_state := (if ctx_state ctx = Suspended then Running else ctx_state ctx),
                           resume_pending := 0\<rparr>
                  else ctx)
           (audioContextRef s)\<rparr>"

text \<open>The await at which a run of \<open>handleSubmit\<close> is suspended (lines 59, 62 and 74).\<close>

datatype awaiting = AwaitSummary | AwaitSpeech | AwaitConvert

text \<open>
  The events. A settlement carries the result that the awaited promise settles with; the
  one of the speech request also carries the collaborators that lines 67 to 74 then call.
\<close>

datatype event =
  TypeUrl string
| Submit
| SummarySettles "js_exn + string"
| SpeechSettles env "js_exn + string option"
| ConvertSettles "js_exn + audio_buffer"
| Toggle
| SoundEnds nat
| DispatchEnded nat
| ResumeSettles
| Render

text \<open>
  The whole system: the component's state, the \<open>isPlaying\<close> and the \<open>audioBuffer\<close> of the
  last render (the values the \<open>togglePlayback\<close> callback holds), the runs of \<open>handleSubmit\<close>
  suspended at an await, and the exceptions that left an event handler uncaught.
\<close>

record world =
  app :: app_state
  rendered_isPlaying :: bool
  rendered_audioBuffer :: "audio_buffer option"
  waiting :: "awaiting list"
  uncaught :: "js_exn list"

definition initial_world :: world where
  "initial_world =
     \<lparr>app = initial_state, rendered_isPlaying = False, rendered_audioBuffer = None,
      waiting = [], uncaught = []\<rparr>"

text \<open>A render: the callbacks are made anew from the current state.\<close>

definition render :: "world \<Rightarrow> world" where
  "render w = w\<lparr>rendered_isPlaying := isPlaying (app w), rendered_audioBuffer := audioBuffer (app w)\<rparr>"

text \<open>
  One event. The state updates of a handler that React calls (the change of the input,
  the submit of the form, the click of the play button) are rendered before the next
  event. Those made elsewhere, after an await of \<open>handleSubmit\<close> and in the \<open>onended\<close>
  handler, only schedule a render: it is the event \<open>Render\<close>, which may come at once or
  after other events, and until then \<open>togglePlayback\<close> holds the values of the render before.
  A settlement is delivered only to a run that waits for it. \<open>Submit\<close> and \<open>Toggle\<close> are
  accepted at any time, also while the form's button is disabled or the play button is
  not shown: the states reached include those of the rendered component.
\<close>

definition step :: "event \<Rightarrow> world \<Rightarrow> world" where
  "step ev w =
     (case ev of
        TypeUrl u \<Rightarrow> render (w\<lparr>app := (app w)\<lparr>url := u\<rparr>\<rparr>)
      | Submit \<Rightarrow>
          render
            (case handleSubmit_enter (app w) of
               Inl e \<Rightarrow> w\<lparr>uncaught := uncaught w @ [e]\<rparr>
             | Inr (s', None) \<Rightarrow> w\<lparr>app := s'\<rparr>
             | Inr (s', Some u) \<Rightarrow> w\<lparr>app := s', waiting := AwaitSummary # waiting w\<rparr>)
      | SummarySettles r \<Rightarrow>
          (if AwaitSummary \<in> set (waiting w)
           then (case handleSubmit_afterSummary r (app w) of
                   (s', None) \<Rightarrow> w\<lparr>app := s', waiting := remove1 AwaitSummary (waiting w)\<rparr>
                 | (s', Some t) \<Rightarrow>
                     w\<lparr>app := s', waiting := AwaitSpeech # remove1 AwaitSummary (waiting w)\<rparr>)
           else w)
      | SpeechSettles env r \<Rightarrow>
          (if AwaitSpeech \<in> set (waiting w)
           then (case handleSubmit_afterSpeech env r (app w) of
                   (s', None) \<Rightarrow> w\<lparr>app := s', waiting := remove1 AwaitSpeech (waiting w)\<rparr>
                 | (s', Some args) \<Rightarrow>
                     w\<lparr>app := s', waiting := AwaitConvert # remove1 AwaitSpeech (waiting w)\<rparr>)
           else w)
      | ConvertSettles r \<Rightarrow>
          (if AwaitConvert \<in> set (waiting w)
           then w\<lparr>app := handleSubmit_afterConvert r (app w),
                  waiting := remove1 AwaitConvert (waiting w)\<rparr>
           else w)
      | Toggle \<Rightarrow>
          render
            (case togglePlayback (rendered_isPlaying w) (rendered_audioBuffer w) (app w) of
               Inl e \<Rightarrow> w\<lparr>uncaught := uncaught w @ [e]\<rparr>
             | Inr s' \<Rightarrow> w\<lparr>app := s'\<rparr>)
      | SoundEnds n \<Rightarrow> w\<lparr>app := sound_ends n (app w)\<rparr>
      | DispatchEnded n \<Rightarrow> w\<lparr>app := dispatch_ended n (app w)\<rparr>
      | ResumeSettles \<Rightarrow> w\<lparr>app := resume_settles (app w)\<rparr>
      | Render \<Rightarrow> render w)"

text \<open>The events are applied from left to right.\<close>

definition run :: "event list \<Rightarrow> world \<Rightarrow> world" where
  "run evs w = foldl (\<lambda>w' ev. step ev w') w evs"

text \<open>The sound-producing instances: the nodes that were started and have not ended.\<close>

definition active_instances :: "app_state \<Rightarrow> nat list" where
  "active_instances s = filter (\<lambda>i. playState (nodes s ! i) = Started) [0..<length (nodes s)]"

section \<open>Invariants of the event system\<close>

text \<open>
  What every reachable state of the component satisfies. \<open>isPlaying\<close> is true exactly
  when the ref holds a node; that node exists and has been started; a sounding node is
  the one the ref holds; so is a node with a queued \<open>ended\<close> event and a handler still
  attached; an \<open>ended\<close> event is queued for finished nodes only; and a buffer is available
  only when the context has been created.
\<close>

definition playback_inv :: "app_state \<Rightarrow> bool" where
  "playback_inv s \<longleftrightarrow>
     (isPlaying s \<longleftrightarrow> audioSourceRef s \<noteq> None) \<and>
     (\<forall>n. audioSourceRef s = Some n \<longrightarrow>
          n < length (nodes s) \<and> playState (nodes s ! n) \<noteq> Unscheduled) \<and>
     (\<forall>i < length (nodes s). playState (nodes s ! i) = Started \<longrightarrow> audioSourceRef s = Some i) \<and>
     (\<forall>i < length (nodes s). ended_pending (nodes s ! i) \<and> onended (nodes s ! i) \<noteq> None \<longrightarrow>
          audioSourceRef s = Some i) \<and>
     (\<forall>i < length (nodes s). ended_pending (nodes s ! i) \<longrightarrow> playState (nodes s ! i) = Finished) \<and>
     (audioBuffer s \<noteq> None \<longrightarrow> audioContextRef s \<noteq> None)"

text \<open>
  A node that has been stopped exists and is no longer the one the ref holds, and no node
  has been stopped more than once.
\<close>

definition calls_inv :: "app_state \<Rightarrow> bool" where
  "calls_inv s \<longleftrightarrow>
     (\<forall>n. NodeStop n \<in> set (calls s) \<longrightarrow> n < length (nodes s) \<and> audioSourceRef s \<noteq> Some n) \<and>
     (\<forall>n. count_list (calls s) (NodeStop n) \<le> 1)"

text \<open>
  While the ref holds a node the last render has seen \<open>isPlaying\<close> true; a buffer seen by
  the last render has not been discarded since; a run of \<open>handleSubmit\<close> that waits for
  \<open>decodeAudioData\<close> has created the context; and no exception has left an event handler.
\<close>

definition world_inv :: "world \<Rightarrow> bool" where
  "world_inv w \<longleftrightarrow>
     playback_inv (app w) \<and>
     calls_inv (app w) \<and>
     (audioSourceRef (app w) \<noteq> None \<longrightarrow> rendered_isPlaying w) \<and>
     (rendered_audioBuffer w \<noteq> None \<longrightarrow> audioBuffer (app w) \<noteq> None) \<and>
     (AwaitConvert \<in> set (waiting w) \<longrightarrow> audioContextRef (app w) \<noteq> None) \<and>
     uncaught w = []"

text \<open>The node that lines 94 to 101 of App.tsx leave behind for a buffer.\<close>

definition new_node :: "audio_buffer \<Rightarrow> source_node" where
  "new_node buf = \<lparr>node_buffer = Some buf, connected = True, onended = Some EndedHandler,
                   playState = Started, start_when = Some 0, ended_pending = False\<rparr>"

section \<open>src/utils/audio: the two functions App.tsx imports\<close>

text \<open>
  Modelled from the spec: the module \<open>./utils/audio\<close> (\<open>decode\<close> and \<open>decodeAudioData\<close>,
  imported on line 4 of App.tsx) is not among the source files; the definitions of this
  section follow sections 4.1, 4.2 and 8 of the specification.
\<close>

datatype decode_error = DecodeError

text \<open>
  Modelled from the spec: the standard base64 alphabet, which the specification names
  without listing it. \<open>b64_char\<close> is the character of a 6-bit value, \<open>b64_value\<close> the value
  of a character, \<open>None\<close> outside the alphabet (the padding character \<open>=\<close> is outside it).
\<close>

definition b64_char :: "nat \<Rightarrow> char" where
  "b64_char v =
     (if v < 26 then char_of (65 + v)
      else if v < 52 then char_of (71 + v)
      else if v < 62 then char_of (v - 4)
      else if v = 62 then CHR ''+''
      else CHR ''/'')"

definition b64_value :: "char \<Rightarrow> nat option" where
  "b64_value c =
     (let n = of_char c :: nat
      in if 65 \<le> n \<and> n \<le> 90 then Some (n - 65)
         else if 97 \<le> n \<and> n \<le> 122 then Some (n - 71)
         else if 48 \<le> n \<and> n \<le> 57 then Some (n + 4)
         else if n = 43 then Some 62
         else if n = 47 then Some 63
         else None)"


text \<open>
  Modelled from the spec: \<open>base64Encode\<close> of the round-trip property, the standard
  encoding: three bytes become four characters, and a last group of one or two bytes is
  padded with \<open>=\<close>.
\<close>

fun base64Encode :: "byte list \<Rightarrow> string" where
  "base64Encode [] = []"
| "base64Encode [a] =
     [b64_char (unat a div 4), b64_char (unat a mod 4 * 16), CHR ''='', CHR ''='']"
| "base64Encode [a, b] =
     [b64_char (unat a div 4), b64_char (unat a mod 4 * 16 + unat b div 16),
      b64_char (unat b mod 16 * 4), CHR ''='']"
| "base64Encode (a # b # c # rest) =
     b64_char (unat a div 4) # b64_char (unat a mod 4 * 16 + unat b div 16) #
     b64_char (unat b mod 16 * 4 + unat c div 64) # b64_char (unat c mod 64) #
     base64Encode rest"


text \<open>
  Modelled from the spec: one group of four characters. Padding is accepted in the last
  group only, as \<open>xx==\<close> or \<open>xxx=\<close>; any other character outside the alphabet fails.
\<close>

definition decode_quad :: "bool \<Rightarrow> char \<Rightarrow> char \<Rightarrow> char \<Rightarrow> char \<Rightarrow> decode_error + byte list" where
  "decode_quad final c1 c2 c3 c4 =
     (case (b64_value c1, b64_value c2) of
        (Some v1, Some v2) \<Rightarrow>
          (if final \<and> c3 = CHR ''='' \<and> c4 = CHR ''='' then Inr [of_nat (v1 * 4 + v2 div 16)]
           else (case b64_value c3 of
                   None \<Rightarrow> Inl DecodeError
                 | Some v3 \<Rightarrow>
                     (if final \<and> c4 = CHR ''=''
                      then Inr [of_nat (v1 * 4 + v2 div 16), of_nat (v2 mod 16 * 16 + v3 div 4)]
                      else (case b64_value c4 of
                              None \<Rightarrow> Inl DecodeError
                            | Some v4 \<Rightarrow>
                                Inr [of_nat (v1 * 4 + v2 div 16), of_nat (v2 mod 16 * 16 + v3 div 4),
                                     of_nat (v3 mod 4 * 64 + v4)]))))
      | _ \<Rightarrow> Inl DecodeError)"


text \<open>
  Modelled from the spec: \<open>decode(base64Text) -> RawByteBuffer\<close>. The empty string gives
  the empty buffer; a length that is not a multiple of four, a character outside the
  alphabet or padding in an illegal position fails with \<open>DecodeError\<close>, with no partial
  result.
\<close>

fun decode :: "string \<Rightarrow> decode_error + byte list" where
  "decode [] = Inr []"
| "decode (c1 # c2 # c3 # c4 # rest) =
     (case decode_quad (rest = []) c1 c2 c3 c4 of
        Inl e \<Rightarrow> Inl e
      | Inr bs \<Rightarrow> (case decode rest of Inl e \<Rightarrow> Inl e | Inr bs' \<Rightarrow> Inr (bs @ bs')))"
| "decode _ = Inl DecodeError"


datatype conversion_error = ConversionError

text \<open>
  Modelled from the spec: one signed 16-bit little-endian integer, from its low and its
  high byte.
\<close>

definition int16_le :: "byte \<Rightarrow> byte \<Rightarrow> int" where
  "int16_le lo hi = sint (word_of_nat (unat lo + 256 * unat hi) :: 16 word)"


text \<open>
  Modelled from the spec: the 16-bit integers of a buffer read sequentially; a last odd
  byte is dropped.
\<close>

fun pcm16_samples :: "byte list \<Rightarrow> int list" where
  "pcm16_samples (lo # hi # rest) = int16_le lo hi # pcm16_samples rest"
| "pcm16_samples _ = []"


text \<open>
  Modelled from the spec: \<open>decodeAudioData(raw, deviceContext, sampleRate, channelCount)\<close>.
  It fails with \<open>ConversionError\<close> if \<open>sampleRate <= 0\<close> or \<open>channelCount <= 0\<close>;
  otherwise \<open>frameCount = floor(raw.length / (2 * channelCount))\<close>, and sample \<open>frame\<close> of
  channel \<open>ch\<close> is the integer at interleave position \<open>frame * channelCount + ch\<close> divided
  by 32768. The device context is not changed.
\<close>

definition decodeAudioData :: "byte list \<Rightarrow> audio_context \<Rightarrow> int \<Rightarrow> int \<Rightarrow> conversion_error + audio_buffer" where
  "decodeAudioData raw deviceContext sampleRate channelCount =
     (if sampleRate \<le> 0 \<or> channelCount \<le> 0 then Inl ConversionError
      else (let channels = nat channelCount;
                frameCount = length raw div (2 * channels);
                samples = pcm16_samples raw
            in Inr \<lparr>channelData =
                      map (\<lambda>ch. map (\<lambda>frame. real_of_int (samples ! (frame * channels + ch)) / 32768)
                                    [0..<frameCount])
                          [0..<channels],
                    buf_sampleRate = sampleRate\<rparr>))"

section \<open>Concrete collaborators and event sequences\<close>

text \<open>
  A model service that answers every request with the summary \<open>News.\<close> and the given audio
  payload, a platform whose new contexts start out suspended, and fixed results for the
  two functions of \<open>./utils/audio\<close>.
\<close>

definition demo_response :: "string option \<Rightarrow> gen_response" where
  "demo_response payload =
     \<lparr>response_text = ''News.'',
      candidates = Some [\<lparr>content = Some \<lparr>parts = Some [\<lparr>inlineData = Some \<lparr>data = payload\<rparr>\<rparr>]\<rparr>\<rparr>]\<rparr>"

definition demo_buffer :: audio_buffer where
  "demo_buffer = \<lparr>channelData = [[- 1, 0]], buf_sampleRate = 24000\<rparr>"

definition demo_env :: "string option \<Rightarrow> env" where
  "demo_env payload =
     \<lparr>generateContent = (\<lambda>req. Inr (demo_response payload)),
      newAudioContext = (\<lambda>rate. Inr \<lparr>ctx_state = Suspended, ctx_sampleRate = rate, resume_pending = 0\<rparr>),
      utils_decode = (\<lambda>b64. Inr [0, 128, 0, 0]),
      utils_decodeAudioData = (\<lambda>raw ctx rate channels. Inr demo_buffer)\<rparr>"

text \<open>
  A model service whose every request fails, and one whose summary succeeds and whose
  speech request fails.
\<close>

definition demo_env_no_summary :: env where
  "demo_env_no_summary = (demo_env None)\<lparr>generateContent := (\<lambda>req. Inl NonError)\<rparr>"

definition demo_env_no_speech :: env where
  "demo_env_no_speech =
     (demo_env None)
       \<lparr>generateContent :=
          (\<lambda>req. case req of
                   TextRequest model prompt \<Rightarrow> Inr (demo_response None)
                 | SpeechRequest model prompt voice \<Rightarrow> Inl NonError)\<rparr>"

text \<open>
  A user types a URL and submits it, the three promises settle with success, the
  component renders and is idle with a buffer ready (\<open>ready_state\<close>); the play button then
  starts playback (\<open>playing_state\<close>); a second press stops it (\<open>stopped_state\<close>); if instead
  the sound reaches its end and the \<open>onended\<close> handler runs, the component is in
  \<open>ended_state\<close>, not yet rendered; and a run of \<open>handleSubmit\<close> from \<open>playing_state\<close> whose
  speech request yields no audio ends in \<open>failed_state\<close>.
\<close>

definition demo_events :: "event list" where
  "demo_events =
     [TypeUrl ''http://a'', Submit, SummarySettles (Inr ''News.''),
      SpeechSettles (demo_env (Some ''AAAA'')) (Inr (Some ''AAAA'')), ConvertSettles (Inr demo_buffer),
      Render]"

definition demo_context :: audio_context where
  "demo_context = \<lparr>ctx_state = Suspended, ctx_sampleRate = 24000, resume_pending = 0\<rparr>"

definition ready_state :: app_state where
  "ready_state =
     \<lparr>url = ''http://a'', summary = ''News.'', isLoading = False, error = None,
      audioBuffer = Some demo_buffer, isPlaying = False, audioContextRef = Some demo_context,
      audioSourceRef = None, nodes = [],
      calls = [NewAudioContext 24000, CallDecode ''AAAA'', CallDecodeAudioData [0, 128, 0, 0]]\<rparr>"

definition playing_state :: app_state where
  "playing_state =
     ready_state
       \<lparr>isPlaying := True,
        audioContextRef := Some (demo_context\<lparr>resume_pending := 1\<rparr>),
        audioSourceRef := Some 0,
        nodes := [new_node demo_buffer],
        calls := calls ready_state @
          [CtxResume, CreateBufferSource 0, SetBuffer 0, Connect 0, SetOnended 0 (Some EndedHandler),
           NodeStart 0 0]\<rparr>"

definition stopped_state :: app_state where
  "stopped_state =
     playing_state
       \<lparr>isPlaying := False, audioSourceRef := None,
        nodes := [(new_node demo_buffer)\<lparr>onended := None, playState := Finished, ended_pending := True\<rparr>],
        calls := calls playing_state @ [SetOnended 0 None, NodeStop 0]\<rparr>"

definition ended_state :: app_state where
  "ended_state =
     playing_state
       \<lparr>isPlaying := False, audioSourceRef := None,
        nodes := [(new_node demo_buffer)\<lparr>playState := Finished\<rparr>]\<rparr>"

definition failed_state :: app_state where
  "failed_state =
     stopped_state
       \<lparr>summary := ''News.'', isLoading := False, error := Some ''Failed to generate audio.'',
        audioBuffer := None\<rparr>"

section \<open>The playback functions keep the invariant\<close>

lemma stopPlayback_idle:
  "audioSourceRef s = None \<Longrightarrow> \<not> isPlaying s \<Longrightarrow> stopPlayback s = Inr s"
  by (simp add: stopPlayback_def)

lemma stopPlayback_playing:
  assumes "audioSourceRef s = Some n" "n < length (nodes s)" "playState (nodes s ! n) \<noteq> Unscheduled"
  shows "stopPlayback s =
     Inr (s\<lparr>nodes := (nodes s)[n :=
                 (if playState (nodes s ! n) = Started
                  then (nodes s ! n)\<lparr>onended := None, playState := Finished, ended_pending := True\<rparr>
                  else (nodes s ! n)\<lparr>onended := None\<rparr>)],
            calls := calls s @ [SetOnended n None, NodeStop n],
            audioSourceRef := None, isPlaying := False\<rparr>)"
  using assms
  by (simp add: stopPlayback_def node_stop_def set_onended_def update_node_def log_call_def)

lemma togglePlayback_start:
  assumes "audioContextRef s = Some ctx"
  shows "togglePlayback False (Some buf) s =
     Inr ((if ctx_state ctx = Suspended then ctx_resume s else s)
          \<lparr>nodes := nodes s @ [new_node buf],
           calls := calls (if ctx_state ctx = Suspended then ctx_resume s else s) @
                [CreateBufferSource (length (nodes s)), SetBuffer (length (nodes s)),
                 Connect (length (nodes s)), SetOnended (length (nodes s)) (Some EndedHandler),
                 NodeStart (length (nodes s)) 0],
           audioSourceRef := Some (length (nodes s)), isPlaying := True\<rparr>)"
  using assms
  by (simp add: togglePlayback_def createBufferSource_def set_buffer_def node_connect_def
      set_onended_def node_start_def update_node_def log_call_def ctx_resume_def new_node_def Let_def)

lemma playback_inv_playing: "playback_inv s \<Longrightarrow> isPlaying s \<longleftrightarrow> audioSourceRef s \<noteq> None"
  unfolding playback_inv_def by blast

lemma playback_inv_ref:
  "playback_inv s \<Longrightarrow> audioSourceRef s = Some n \<Longrightarrow>
     n < length (nodes s) \<and> playState (nodes s ! n) \<noteq> Unscheduled"
  unfolding playback_inv_def by blast

lemma playback_inv_started:
  "playback_inv s \<Longrightarrow> i < length (nodes s) \<Longrightarrow> playState (nodes s ! i) = Started \<Longrightarrow>
     audioSourceRef s = Some i"
  unfolding playback_inv_def by blast

lemma playback_inv_pending:
  "playback_inv s \<Longrightarrow> i < length (nodes s) \<Longrightarrow> ended_pending (nodes s ! i) \<Longrightarrow>
     onended (nodes s ! i) \<noteq> None \<Longrightarrow> audioSourceRef s = Some i"
  unfolding playback_inv_def by blast

lemma playback_inv_finished:
  "playback_inv s \<Longrightarrow> i < length (nodes s) \<Longrightarrow> ended_pending (nodes s ! i) \<Longrightarrow>
     playState (nodes s ! i) = Finished"
  unfolding playback_inv_def by blast

lemma playback_inv_context:
  "playback_inv s \<Longrightarrow> audioBuffer s \<noteq> None \<Longrightarrow> audioContextRef s \<noteq> None"
  unfolding playback_inv_def by blast

lemma playback_inv_idle:
  assumes "\<And>i. i < length (nodes s) \<Longrightarrow> playState (nodes s ! i) \<noteq> Started"
    and "\<And>i. i < length (nodes s) \<Longrightarrow> ended_pending (nodes s ! i) \<Longrightarrow> onended (nodes s ! i) = None"
    and "\<not> isPlaying s" "audioSourceRef s = None"
    and "audioBuffer s \<noteq> None \<longrightarrow> audioContextRef s \<noteq> None"
    and "\<And>i. i < length (nodes s) \<Longrightarrow> ended_pending (nodes s ! i) \<Longrightarrow> playState (nodes s ! i) = Finished"
  shows "playback_inv s"
  unfolding playback_inv_def
proof (intro conjI allI impI)
  show "isPlaying s = (audioSourceRef s \<noteq> None)" using assms(3,4) by blast
next
  fix n assume "audioSourceRef s = Some n"
  with assms(4) show "n < length (nodes s)" "playState (nodes s ! n) \<noteq> Unscheduled" by simp_all
next
  fix i assume "i < length (nodes s)" "playState (nodes s ! i) = Started"
  with assms(1) show "audioSourceRef s = Some i" by blast
next
  fix i assume i: "i < length (nodes s)"
    and "ended_pending (nodes s ! i) \<and> onended (nodes s ! i) \<noteq> None"
  then have p: "ended_pending (nodes s ! i)" and h: "onended (nodes s ! i) \<noteq> None" by simp_all
  from assms(2) [OF i p] h show "audioSourceRef s = Some i" by simp
next
  fix i assume "i < length (nodes s)" "ended_pending (nodes s ! i)"
  then show "playState (nodes s ! i) = Finished" by (rule assms(6))
next
  assume "audioBuffer s \<noteq> None"
  with assms(5) show "audioContextRef s \<noteq> None" by blast
qed

lemma playback_inv_stop:
  assumes "playback_inv s"
  shows "\<exists>s'. stopPlayback s = Inr s' \<and> playback_inv s' \<and> \<not> isPlaying s' \<and> audioSourceRef s' = None
         \<and> audioBuffer s' = audioBuffer s \<and> audioContextRef s' = audioContextRef s"
proof (cases "audioSourceRef s")
  case None
  with assms have "\<not> isPlaying s" by (simp add: playback_inv_playing)
  with None assms show ?thesis by (simp add: stopPlayback_idle)
next
  case (Some n)
  from playback_inv_ref [OF assms Some]
  have n: "n < length (nodes s)" "playState (nodes s ! n) \<noteq> Unscheduled"
    by simp_all
  define nd where "nd = (if playState (nodes s ! n) = Started
             then (nodes s ! n)\<lparr>onended := None, playState := Finished, ended_pending := True\<rparr>
             else (nodes s ! n)\<lparr>onended := None\<rparr>)"
  define s' where "s' = s\<lparr>nodes := (nodes s)[n := nd], calls := calls s @ [SetOnended n None, NodeStop n],
              audioSourceRef := None, isPlaying := False\<rparr>"
  have eq: "stopPlayback s = Inr s'"
    unfolding s'_def nd_def by (rule stopPlayback_playing [OF Some n])
  have nd: "playState nd \<noteq> Started" "onended nd = None"
    by (simp_all add: nd_def)
  have nd_fin: "ended_pending nd \<Longrightarrow> playState nd = Finished"
    using playback_inv_finished [OF assms n(1)] by (simp add: nd_def split: if_splits)
  have fields: "nodes s' = (nodes s)[n := nd]" "audioSourceRef s' = None" "\<not> isPlaying s'"
    "audioBuffer s' = audioBuffer s" "audioContextRef s' = audioContextRef s"
    by (simp_all add: s'_def)
  have len: "length (nodes s') = length (nodes s)" by (simp add: fields)
  have at_n: "nodes s' ! n = nd" using n(1) by (simp add: fields)
  have off_n: "\<And>i. i \<noteq> n \<Longrightarrow> nodes s' ! i = nodes s ! i" by (simp add: fields)
  have "playback_inv s'"
  proof (rule playback_inv_idle)
    fix i assume i: "i < length (nodes s')"
    show "playState (nodes s' ! i) \<noteq> Started"
    proof (cases "i = n")
      case True
      with at_n nd(1) show ?thesis by simp
    next
      case False
      show ?thesis
      proof
        assume "playState (nodes s' ! i) = Started"
        with off_n [OF False] have "playState (nodes s ! i) = Started" by simp
        with i len have "audioSourceRef s = Some i"
          by (intro playback_inv_started [OF assms]) simp_all
        with Some False show False by simp
      qed
    qed
  next
    fix i assume i: "i < length (nodes s')" and p: "ended_pending (nodes s' ! i)"
    show "onended (nodes s' ! i) = None"
    proof (cases "i = n")
      case True
      with at_n nd(2) show ?thesis by simp
    next
      case False
      show ?thesis
      proof (rule ccontr)
        assume "onended (nodes s' ! i) \<noteq> None"
        with p off_n [OF False]
        have "ended_pending (nodes s ! i)" "onended (nodes s ! i) \<noteq> None" by simp_all
        with i len have "audioSourceRef s = Some i"
          by (intro playback_inv_pending [OF assms]) simp_all
        with Some False show False by simp
      qed
    qed
  next
    show "audioBuffer s' \<noteq> None \<longrightarrow> audioContextRef s' \<noteq> None"
      using playback_inv_context [OF assms] by (simp add: fields)
  next
    fix i assume i: "i < length (nodes s')" and p: "ended_pending (nodes s' ! i)"
    show "playState (nodes s' ! i) = Finished"
    proof (cases "i = n")
      case True
      with at_n nd_fin p show ?thesis by simp
    next
      case False
      with p off_n [OF False] i len show ?thesis
        by (simp add: playback_inv_finished [OF assms])
    qed
  qed (simp_all add: fields)
  with eq fields show ?thesis by simp
qed

lemma togglePlayback_stale: "togglePlayback True b s = stopPlayback s"
  by (simp add: togglePlayback_def)

lemma togglePlayback_nothing:
  "b = None \<or> audioContextRef s = None \<Longrightarrow> togglePlayback False b s = Inr s"
  by (auto simp: togglePlayback_def split: option.splits)

text \<open>
  The callback may hold values of an earlier render; it keeps the invariant as long as a
  callback that has seen \<open>isPlaying\<close> false finds the ref empty.
\<close>

lemma playback_inv_toggle:
  assumes "playback_inv s" and stale: "\<not> p \<Longrightarrow> audioSourceRef s = None"
  shows "\<exists>s'. togglePlayback p b s = Inr s' \<and> playback_inv s'"
proof (cases p)
  case True
  then show ?thesis using playback_inv_stop [OF assms(1)] by (auto simp: togglePlayback_stale)
next
  case False
  from stale [OF False] have ref: "audioSourceRef s = None" .
  with playback_inv_playing [OF assms(1)] have idle: "\<not> isPlaying s" by simp
  show ?thesis
  proof (cases "b = None \<or> audioContextRef s = None")
    case True
    with False assms(1) show ?thesis by (simp add: togglePlayback_nothing)
  next
    case nontrivial: False
    then obtain buf ctx where b: "b = Some buf" and ctx: "audioContextRef s = Some ctx"
      by auto
    show ?thesis
      using assms(1) ref idle
      apply (simp add: False b togglePlayback_start [OF ctx])
      apply (auto simp: playback_inv_def nth_append new_node_def ctx_resume_def log_call_def ctx)
      done
  qed
qed


lemma playback_inv_frame:
  assumes "playback_inv s" "isPlaying s' = isPlaying s" "audioSourceRef s' = audioSourceRef s"
    "nodes s' = nodes s" "audioBuffer s' \<noteq> None \<longrightarrow> audioContextRef s' \<noteq> None"
  shows "playback_inv s'"
  unfolding playback_inv_def assms(2,3,4)
  using assms(1) [unfolded playback_inv_def] assms(5)
  by (elim conjE, intro conjI) assumption+

lemma catch_fields [simp]:
  "isPlaying (handleSubmit_catch e s) = isPlaying s"
  "audioSourceRef (handleSubmit_catch e s) = audioSourceRef s"
  "nodes (handleSubmit_catch e s) = nodes s"
  "calls (handleSubmit_catch e s) = calls s"
  "audioBuffer (handleSubmit_catch e s) = audioBuffer s"
  "audioContextRef (handleSubmit_catch e s) = audioContextRef s"
  "isLoading (handleSubmit_catch e s) = False"
  "error (handleSubmit_catch e s) = Some (error_message e)"
  "summary (handleSubmit_catch e s) = summary s"
  "url (handleSubmit_catch e s) = url s"
  by (simp_all add: handleSubmit_catch_def)

lemma log_call_fields [simp]:
  "isPlaying (log_call c s) = isPlaying s"
  "audioSourceRef (log_call c s) = audioSourceRef s"
  "nodes (log_call c s) = nodes s"
  "calls (log_call c s) = calls s @ [c]"
  "audioBuffer (log_call c s) = audioBuffer s"
  "audioContextRef (log_call c s) = audioContextRef s"
  "isLoading (log_call c s) = isLoading s"
  "error (log_call c s) = error s"
  "summary (log_call c s) = summary s"
  "url (log_call c s) = url s"
  by (simp_all add: log_call_def)

lemma playback_inv_enter:
  assumes "playback_inv s" "handleSubmit_enter s = r"
  shows "\<exists>s' p. r = Inr (s', p) \<and> playback_inv s' \<and> audioContextRef s' = audioContextRef s"
proof (cases "trim (url s) = []")
  case True
  have "playback_inv (s\<lparr>error := Some ''Please enter a valid URL.''\<rparr>)"
    by (rule playback_inv_frame [OF assms(1)]) (use playback_inv_context [OF assms(1)] in simp_all)
  with True assms(2) show ?thesis
    by (auto simp: handleSubmit_enter_def)
next
  case False
  let ?s0 = "s\<lparr>isLoading := True, error := None, summary := [], audioBuffer := None\<rparr>"
  have "playback_inv ?s0" by (rule playback_inv_frame [OF assms(1)]) simp_all
  from playback_inv_stop [OF this] False assms(2) show ?thesis
    by (auto simp: handleSubmit_enter_def)
qed

lemma afterSummary_fields:
  "isPlaying (fst (handleSubmit_afterSummary r s)) = isPlaying s"
  "audioSourceRef (fst (handleSubmit_afterSummary r s)) = audioSourceRef s"
  "nodes (fst (handleSubmit_afterSummary r s)) = nodes s"
  "audioBuffer (fst (handleSubmit_afterSummary r s)) = audioBuffer s"
  "audioContextRef (fst (handleSubmit_afterSummary r s)) = audioContextRef s"
  "calls (fst (handleSubmit_afterSummary r s)) = calls s"
  by (simp_all add: handleSubmit_afterSummary_def split: sum.splits)

lemma playback_inv_afterSummary:
  assumes "playback_inv s"
  shows "playback_inv (fst (handleSubmit_afterSummary r s))"
  by (rule playback_inv_frame [OF assms])
     (use playback_inv_context [OF assms] in \<open>simp_all add: afterSummary_fields\<close>)

lemma ensure_context_Inl:
  "ensure_context env s = Inl (e, s1) \<Longrightarrow>
     s1 = log_call (NewAudioContext 24000) s \<and> audioContextRef s = None"
  by (auto simp: ensure_context_def split: option.splits sum.splits)

lemma ensure_context_Inr:
  "ensure_context env s = Inr (ctx, s1) \<Longrightarrow>
     audioContextRef s1 = Some ctx \<and> isPlaying s1 = isPlaying s \<and> audioSourceRef s1 = audioSourceRef s \<and>
     nodes s1 = nodes s \<and> audioBuffer s1 = audioBuffer s \<and>
     (s1 = s \<or> (audioContextRef s = None \<and> calls s1 = calls s @ [NewAudioContext 24000]))"
  by (auto simp: ensure_context_def split: option.splits sum.splits)

lemma afterConvert_fields:
  "isPlaying (handleSubmit_afterConvert r s) = isPlaying s"
  "audioSourceRef (handleSubmit_afterConvert r s) = audioSourceRef s"
  "nodes (handleSubmit_afterConvert r s) = nodes s"
  "audioContextRef (handleSubmit_afterConvert r s) = audioContextRef s"
  "calls (handleSubmit_afterConvert r s) = calls s"
  "isLoading (handleSubmit_afterConvert r s) = False"
  by (simp_all add: handleSubmit_afterConvert_def split: sum.splits)

lemma playback_inv_afterConvert:
  assumes "playback_inv s" "audioContextRef s \<noteq> None"
  shows "playback_inv (handleSubmit_afterConvert r s)"
  by (rule playback_inv_frame [OF assms(1)]) (use assms(2) in \<open>simp_all add: afterConvert_fields\<close>)

lemma afterSpeech_fields:
  assumes "handleSubmit_afterSpeech env r s = (s', nxt)"
  shows "isPlaying s' = isPlaying s" "audioSourceRef s' = audioSourceRef s" "nodes s' = nodes s"
    "audioBuffer s' = audioBuffer s" "audioContextRef s \<noteq> None \<longrightarrow> audioContextRef s' \<noteq> None"
    "nxt \<noteq> None \<longrightarrow> audioContextRef s' \<noteq> None"
  using assms unfolding handleSubmit_afterSpeech_def
  by (auto simp: Let_def split: sum.splits option.splits if_splits prod.splits
      dest!: ensure_context_Inl ensure_context_Inr)

lemma playback_inv_afterSpeech:
  assumes "playback_inv s" "handleSubmit_afterSpeech env r s = (s', nxt)"
  shows "playback_inv s'"
  by (rule playback_inv_frame [OF assms(1)])
     (use playback_inv_context [OF assms(1)] afterSpeech_fields [OF assms(2)] in simp_all)

lemma playback_invI:
  assumes "isPlaying s \<longleftrightarrow> audioSourceRef s \<noteq> None"
    and "\<And>n. audioSourceRef s = Some n \<Longrightarrow> n < length (nodes s) \<and> playState (nodes s ! n) \<noteq> Unscheduled"
    and "\<And>i. i < length (nodes s) \<Longrightarrow> playState (nodes s ! i) = Started \<Longrightarrow> audioSourceRef s = Some i"
    and "\<And>i. i < length (nodes s) \<Longrightarrow> ended_pending (nodes s ! i) \<Longrightarrow> onended (nodes s ! i) \<noteq> None \<Longrightarrow>
           audioSourceRef s = Some i"
    and "\<And>i. i < length (nodes s) \<Longrightarrow> ended_pending (nodes s ! i) \<Longrightarrow> playState (nodes s ! i) = Finished"
    and "audioBuffer s \<noteq> None \<longrightarrow> audioContextRef s \<noteq> None"
  shows "playback_inv s"
  unfolding playback_inv_def
proof (intro conjI allI impI)
  show "isPlaying s = (audioSourceRef s \<noteq> None)" by (rule assms(1))
next
  fix n assume "audioSourceRef s = Some n"
  from assms(2) [OF this] show "n < length (nodes s)" "playState (nodes s ! n) \<noteq> Unscheduled"
    by simp_all
next
  fix i assume "i < length (nodes s)" "playState (nodes s ! i) = Started"
  then show "audioSourceRef s = Some i" by (rule assms(3))
next
  fix i assume i: "i < length (nodes s)"
    and "ended_pending (nodes s ! i) \<and> onended (nodes s ! i) \<noteq> None"
  then have p: "ended_pending (nodes s ! i)" and h: "onended (nodes s ! i) \<noteq> None" by simp_all
  from i p h show "audioSourceRef s = Some i" by (rule assms(4))
next
  fix i assume "i < length (nodes s)" "ended_pending (nodes s ! i)"
  then show "playState (nodes s ! i) = Finished" by (rule assms(5))
next
  assume "audioBuffer s \<noteq> None"
  with assms(6) show "audioContextRef s \<noteq> None" by simp
qed

lemma sound_ends_fields [simp]:
  "isPlaying (sound_ends n s) = isPlaying s"
  "audioSourceRef (sound_ends n s) = audioSourceRef s"
  "audioBuffer (sound_ends n s) = audioBuffer s"
  "audioContextRef (sound_ends n s) = audioContextRef s"
  "calls (sound_ends n s) = calls s"
  "length (nodes (sound_ends n s)) = length (nodes s)"
  by (simp_all add: sound_ends_def update_node_def)

lemma sound_ends_other:
  "i \<noteq> n \<Longrightarrow> nodes (sound_ends n s) ! i = nodes s ! i"
  by (simp add: sound_ends_def update_node_def)

lemma sound_ends_same:
  "n < length (nodes s) \<Longrightarrow> playState (nodes s ! n) = Started \<Longrightarrow>
     nodes (sound_ends n s) ! n = (nodes s ! n)\<lparr>playState := Finished, ended_pending := True\<rparr>"
  by (simp add: sound_ends_def update_node_def)

lemma sound_ends_idle:
  "\<not> (n < length (nodes s) \<and> playState (nodes s ! n) = Started) \<Longrightarrow> sound_ends n s = s"
  by (auto simp: sound_ends_def)

lemma playback_inv_sound_ends:
  assumes "playback_inv s"
  shows "playback_inv (sound_ends n s)"
proof (cases "n < length (nodes s) \<and> playState (nodes s ! n) = Started")
  case False
  then show ?thesis using assms by (simp add: sound_ends_idle)
next
  case True
  then have n: "n < length (nodes s)" and st: "playState (nodes s ! n) = Started" by simp_all
  have ref: "audioSourceRef s = Some n" by (rule playback_inv_started [OF assms n st])
  note same = sound_ends_same [OF n st]
  show ?thesis
  proof (rule playback_invI)
    show "isPlaying (sound_ends n s) = (audioSourceRef (sound_ends n s) \<noteq> None)"
      using playback_inv_playing [OF assms] by simp
  next
    fix m assume "audioSourceRef (sound_ends n s) = Some m"
    with ref have "m = n" by simp
    with n same show "m < length (nodes (sound_ends n s)) \<and> playState (nodes (sound_ends n s) ! m) \<noteq> Unscheduled"
      by simp
  next
    fix i assume i: "i < length (nodes (sound_ends n s))"
      and "playState (nodes (sound_ends n s) ! i) = Started"
    then have "i \<noteq> n \<and> playState (nodes s ! i) = Started"
      using same by (cases "i = n") (simp_all add: sound_ends_other)
    with i have "audioSourceRef s = Some i" by (intro playback_inv_started [OF assms]) simp_all
    then show "audioSourceRef (sound_ends n s) = Some i" by simp
  next
    fix i assume i: "i < length (nodes (sound_ends n s))"
      and p: "ended_pending (nodes (sound_ends n s) ! i)"
      and h: "onended (nodes (sound_ends n s) ! i) \<noteq> None"
    show "audioSourceRef (sound_ends n s) = Some i"
    proof (cases "i = n")
      case True
      with ref show ?thesis by simp
    next
      case False
      with p h have "ended_pending (nodes s ! i)" "onended (nodes s ! i) \<noteq> None"
        by (simp_all add: sound_ends_other)
      with i have "audioSourceRef s = Some i" by (intro playback_inv_pending [OF assms]) simp_all
      then show ?thesis by simp
    qed
  next
    fix i assume i: "i < length (nodes (sound_ends n s))"
      and p: "ended_pending (nodes (sound_ends n s) ! i)"
    show "playState (nodes (sound_ends n s) ! i) = Finished"
    proof (cases "i = n")
      case True
      with same show ?thesis by simp
    next
      case False
      with p have "ended_pending (nodes s ! i)" by (simp add: sound_ends_other)
      with i have "playState (nodes s ! i) = Finished"
        by (intro playback_inv_finished [OF assms]) simp_all
      with False show ?thesis by (simp add: sound_ends_other)
    qed
  next
    show "audioBuffer (sound_ends n s) \<noteq> None \<longrightarrow> audioContextRef (sound_ends n s) \<noteq> None"
      using playback_inv_context [OF assms] by simp
  qed
qed

lemma playback_inv_resume_settles:
  assumes "playback_inv s"
  shows "playback_inv (resume_settles s)"
  by (rule playback_inv_frame [OF assms])
     (use playback_inv_context [OF assms] in \<open>simp_all add: resume_settles_def\<close>)


lemma dispatch_ended_disabled:
  "\<not> (n < length (nodes s) \<and> ended_pending (nodes s ! n)) \<Longrightarrow> dispatch_ended n s = s"
  by (auto simp: dispatch_ended_def)

lemma dispatch_ended_detached:
  "n < length (nodes s) \<Longrightarrow> ended_pending (nodes s ! n) \<Longrightarrow> onended (nodes s ! n) = None \<Longrightarrow>
     dispatch_ended n s = update_node n (\<lambda>nd. nd\<lparr>ended_pending := False\<rparr>) s"
  by (simp add: dispatch_ended_def)

lemma dispatch_ended_attached:
  "n < length (nodes s) \<Longrightarrow> ended_pending (nodes s ! n) \<Longrightarrow> onended (nodes s ! n) = Some h \<Longrightarrow>
     dispatch_ended n s =
       (update_node n (\<lambda>nd. nd\<lparr>ended_pending := False\<rparr>) s)\<lparr>isPlaying := False, audioSourceRef := None\<rparr>"
  by (cases h) (simp add: dispatch_ended_def run_handler_def)

lemma update_node_fields [simp]:
  "isPlaying (update_node n f s) = isPlaying s"
  "audioSourceRef (update_node n f s) = audioSourceRef s"
  "audioBuffer (update_node n f s) = audioBuffer s"
  "audioContextRef (update_node n f s) = audioContextRef s"
  "calls (update_node n f s) = calls s"
  "length (nodes (update_node n f s)) = length (nodes s)"
  by (simp_all add: update_node_def)

lemma update_node_nth:
  "i \<noteq> n \<Longrightarrow> nodes (update_node n f s) ! i = nodes s ! i"
  "n < length (nodes s) \<Longrightarrow> nodes (update_node n f s) ! n = f (nodes s ! n)"
  by (simp_all add: update_node_def)

lemma playback_inv_clear_pending:
  assumes "playback_inv s" "n < length (nodes s)"
  shows "playback_inv (update_node n (\<lambda>nd. nd\<lparr>ended_pending := False\<rparr>) s)"
    (is "playback_inv ?s'")
proof (rule playback_invI)
  show "isPlaying ?s' = (audioSourceRef ?s' \<noteq> None)"
    using playback_inv_playing [OF assms(1)] by simp
next
  fix m assume "audioSourceRef ?s' = Some m"
  then have m: "audioSourceRef s = Some m" by simp
  from playback_inv_ref [OF assms(1) m]
  show "m < length (nodes ?s') \<and> playState (nodes ?s' ! m) \<noteq> Unscheduled"
    using assms(2) by (cases "m = n") (simp_all add: update_node_nth)
next
  fix i assume i: "i < length (nodes ?s')" and "playState (nodes ?s' ! i) = Started"
  then have "playState (nodes s ! i) = Started"
    using assms(2) by (cases "i = n") (simp_all add: update_node_nth)
  with i have "audioSourceRef s = Some i" by (intro playback_inv_started [OF assms(1)]) simp_all
  then show "audioSourceRef ?s' = Some i" by simp
next
  fix i assume i: "i < length (nodes ?s')" and p: "ended_pending (nodes ?s' ! i)"
    and h: "onended (nodes ?s' ! i) \<noteq> None"
  from p assms(2) have ne: "i \<noteq> n" by (auto simp: update_node_nth)
  with p h have "ended_pending (nodes s ! i)" "onended (nodes s ! i) \<noteq> None"
    by (simp_all add: update_node_nth)
  with i have "audioSourceRef s = Some i" by (intro playback_inv_pending [OF assms(1)]) simp_all
  then show "audioSourceRef ?s' = Some i" by simp
next
  fix i assume i: "i < length (nodes ?s')" and p: "ended_pending (nodes ?s' ! i)"
  from p assms(2) have ne: "i \<noteq> n" by (auto simp: update_node_nth)
  with p have "ended_pending (nodes s ! i)" by (simp add: update_node_nth)
  with i have "playState (nodes s ! i) = Finished"
    by (intro playback_inv_finished [OF assms(1)]) simp_all
  with ne show "playState (nodes ?s' ! i) = Finished" by (simp add: update_node_nth)
next
  show "audioBuffer ?s' \<noteq> None \<longrightarrow> audioContextRef ?s' \<noteq> None"
    using playback_inv_context [OF assms(1)] by simp
qed

lemma playback_inv_dispatch_ended:
  assumes "playback_inv s"
  shows "playback_inv (dispatch_ended n s)"
proof (cases "n < length (nodes s) \<and> ended_pending (nodes s ! n)")
  case False
  then show ?thesis using assms by (simp add: dispatch_ended_disabled)
next
  case True
  then have n: "n < length (nodes s)" and p: "ended_pending (nodes s ! n)" by simp_all
  let ?s1 = "update_node n (\<lambda>nd. nd\<lparr>ended_pending := False\<rparr>) s"
  have inv1: "playback_inv ?s1" by (rule playback_inv_clear_pending [OF assms n])
  have fin: "playState (nodes s ! n) = Finished" by (rule playback_inv_finished [OF assms n p])
  show ?thesis
  proof (cases "onended (nodes s ! n)")
    case None
    with inv1 n p show ?thesis by (simp add: dispatch_ended_detached)
  next
    case (Some h)
    then have "onended (nodes s ! n) \<noteq> None" by simp
    from playback_inv_pending [OF assms n p this] have ref: "audioSourceRef s = Some n" .
    let ?s2 = "?s1\<lparr>isPlaying := False, audioSourceRef := None\<rparr>"
    have "playback_inv ?s2"
    proof (rule playback_inv_idle)
      fix i assume i: "i < length (nodes ?s2)"
      show "playState (nodes ?s2 ! i) \<noteq> Started"
      proof
        assume "playState (nodes ?s2 ! i) = Started"
        then have st: "playState (nodes ?s1 ! i) = Started" by simp
        from i have "i < length (nodes ?s1)" by simp
        from playback_inv_started [OF inv1 this st] ref have "i = n" by simp
        with st n fin show False by (simp add: update_node_nth)
      qed
    next
      fix i assume i: "i < length (nodes ?s2)" and pe: "ended_pending (nodes ?s2 ! i)"
      show "onended (nodes ?s2 ! i) = None"
      proof (rule ccontr)
        assume "onended (nodes ?s2 ! i) \<noteq> None"
        then have h1: "onended (nodes ?s1 ! i) \<noteq> None" by simp
        from pe have p1: "ended_pending (nodes ?s1 ! i)" by simp
        from i have "i < length (nodes ?s1)" by simp
        from playback_inv_pending [OF inv1 this p1 h1] ref have "i = n" by simp
        with p1 n show False by (simp add: update_node_nth)
      qed
    next
      fix i assume i: "i < length (nodes ?s2)" and pe: "ended_pending (nodes ?s2 ! i)"
      from pe have p1: "ended_pending (nodes ?s1 ! i)" by simp
      from i have "i < length (nodes ?s1)" by simp
      from playback_inv_finished [OF inv1 this p1] show "playState (nodes ?s2 ! i) = Finished" by simp
    next
      show "audioBuffer ?s2 \<noteq> None \<longrightarrow> audioContextRef ?s2 \<noteq> None"
        using playback_inv_context [OF assms] by simp
    qed simp_all
    with n p Some show ?thesis by (simp add: dispatch_ended_attached)
  qed
qed

section \<open>No node is stopped twice\<close>

lemma calls_inv_stopped:
  "calls_inv s \<Longrightarrow> NodeStop n \<in> set (calls s) \<Longrightarrow> n < length (nodes s) \<and> audioSourceRef s \<noteq> Some n"
  unfolding calls_inv_def by blast

lemma calls_inv_once: "calls_inv s \<Longrightarrow> count_list (calls s) (NodeStop n) \<le> 1"
  unfolding calls_inv_def by blast

lemma calls_invI:
  assumes "\<And>n. NodeStop n \<in> set (calls s) \<Longrightarrow> n < length (nodes s) \<and> audioSourceRef s \<noteq> Some n"
    and "\<And>n. count_list (calls s) (NodeStop n) \<le> 1"
  shows "calls_inv s"
  unfolding calls_inv_def using assms by blast

text \<open>A step that stops no node, keeps the old nodes, and points the ref nowhere new but to a new node.\<close>

lemma calls_inv_frame:
  assumes inv: "calls_inv s"
    and calls: "calls s' = calls s @ cs" "\<And>n. NodeStop n \<notin> set cs"
    and len: "length (nodes s) \<le> length (nodes s')"
    and ref: "audioSourceRef s' = audioSourceRef s \<or> audioSourceRef s' = None \<or>
              (\<exists>k. audioSourceRef s' = Some k \<and> length (nodes s) \<le> k)"
  shows "calls_inv s'"
proof (rule calls_invI)
  fix n assume "NodeStop n \<in> set (calls s')"
  with calls have "NodeStop n \<in> set (calls s)" by simp
  from calls_inv_stopped [OF inv this] have n: "n < length (nodes s)" "audioSourceRef s \<noteq> Some n"
    by simp_all
  from ref n have "audioSourceRef s' \<noteq> Some n" by auto
  with n(1) len show "n < length (nodes s') \<and> audioSourceRef s' \<noteq> Some n" by simp
next
  fix n
  from calls(2) have "count_list cs (NodeStop n) = 0" by (simp add: count_list_0_iff)
  with calls_inv_once [OF inv, of n] show "count_list (calls s') (NodeStop n) \<le> 1"
    by (simp add: calls(1))
qed

lemma calls_inv_stop:
  assumes "calls_inv s" "playback_inv s" "stopPlayback s = Inr s'"
  shows "calls_inv s'"
proof (cases "audioSourceRef s")
  case None
  with assms(3) have s': "s' = s\<lparr>isPlaying := False\<rparr>" by (simp add: stopPlayback_def)
  show ?thesis by (rule calls_inv_frame [OF assms(1), where cs = "[]"]) (simp_all add: s')
next
  case (Some m)
  from playback_inv_ref [OF assms(2) Some]
  have m: "m < length (nodes s)" "playState (nodes s ! m) \<noteq> Unscheduled" by simp_all
  from assms(3) stopPlayback_playing [OF Some m]
  have fields: "calls s' = calls s @ [SetOnended m None, NodeStop m]"
    "audioSourceRef s' = None" "length (nodes s') = length (nodes s)"
    by auto
  from calls_inv_stopped [OF assms(1), of m] Some
  have fresh: "NodeStop m \<notin> set (calls s)" by blast
  show ?thesis
  proof (rule calls_invI)
    fix n assume "NodeStop n \<in> set (calls s')"
    then have "n = m \<or> NodeStop n \<in> set (calls s)" by (auto simp: fields)
    with calls_inv_stopped [OF assms(1), of n] m(1)
    show "n < length (nodes s') \<and> audioSourceRef s' \<noteq> Some n"
      by (auto simp: fields)
  next
    fix n
    show "count_list (calls s') (NodeStop n) \<le> 1"
    proof (cases "n = m")
      case True
      with fresh have "count_list (calls s) (NodeStop n) = 0" by (simp add: count_list_0_iff)
      with True show ?thesis by (simp add: fields)
    next
      case False
      with calls_inv_once [OF assms(1), of n] show ?thesis by (simp add: fields)
    qed
  qed
qed

lemma calls_inv_toggle:
  assumes "calls_inv s" "playback_inv s" "togglePlayback p b s = Inr s'"
  shows "calls_inv s'"
proof (cases p)
  case True
  with assms show ?thesis by (simp add: togglePlayback_stale calls_inv_stop)
next
  case np: False
  show ?thesis
  proof (cases "b = None \<or> audioContextRef s = None")
    case True
    with np assms(3) have "s' = s" by (simp add: togglePlayback_nothing)
    with assms(1) show ?thesis by simp
  next
    case False
    then obtain buf ctx where b: "b = Some buf" and ctx: "audioContextRef s = Some ctx"
      by auto
    let ?k = "length (nodes s)"
    let ?cs = "(if ctx_state ctx = Suspended then [CtxResume] else []) @
               [CreateBufferSource ?k, SetBuffer ?k, Connect ?k, SetOnended ?k (Some EndedHandler),
                NodeStart ?k 0]"
    from assms(3) togglePlayback_start [OF ctx, of buf]
    have fields: "calls s' = calls s @ ?cs" "audioSourceRef s' = Some ?k"
      "length (nodes s') = Suc ?k"
      by (auto simp: np b ctx_resume_def)
    show ?thesis
      by (rule calls_inv_frame [OF assms(1) fields(1)]) (simp_all add: fields)
  qed
qed

lemma calls_inv_enter:
  assumes "calls_inv s" "playback_inv s" "handleSubmit_enter s = Inr (s', p)"
  shows "calls_inv s'"
proof (cases "trim (url s) = []")
  case True
  with assms(3) have s': "s' = s\<lparr>error := Some ''Please enter a valid URL.''\<rparr>"
    by (simp add: handleSubmit_enter_def)
  show ?thesis by (rule calls_inv_frame [OF assms(1), where cs = "[]"]) (simp_all add: s')
next
  case False
  let ?s0 = "s\<lparr>isLoading := True, error := None, summary := [], audioBuffer := None\<rparr>"
  have c0: "calls_inv ?s0" by (rule calls_inv_frame [OF assms(1), where cs = "[]"]) simp_all
  have p0: "playback_inv ?s0" by (rule playback_inv_frame [OF assms(2)]) simp_all
  from False assms(3) have "stopPlayback ?s0 = Inr s'"
    by (simp add: handleSubmit_enter_def split: sum.splits)
  from calls_inv_stop [OF c0 p0 this] show ?thesis .
qed

lemma afterSpeech_calls:
  assumes "handleSubmit_afterSpeech env r s = (s', nxt)"
  shows "\<exists>cs. calls s' = calls s @ cs \<and> (\<forall>n. NodeStop n \<notin> set cs)"
  using assms unfolding handleSubmit_afterSpeech_def
  by (auto simp: Let_def split: sum.splits option.splits if_splits prod.splits
      dest!: ensure_context_Inl ensure_context_Inr)

lemma calls_inv_afterSpeech:
  assumes "calls_inv s" "handleSubmit_afterSpeech env r s = (s', nxt)"
  shows "calls_inv s'"
proof -
  from afterSpeech_calls [OF assms(2)] obtain cs
    where cs: "calls s' = calls s @ cs" "\<And>n. NodeStop n \<notin> set cs" by blast
  show ?thesis
    by (rule calls_inv_frame [OF assms(1) cs]) (simp_all add: afterSpeech_fields [OF assms(2)])
qed

lemma calls_inv_same:
  assumes "calls_inv s" "calls s' = calls s" "length (nodes s') = length (nodes s)"
    "audioSourceRef s' = audioSourceRef s \<or> audioSourceRef s' = None"
  shows "calls_inv s'"
  by (rule calls_inv_frame [OF assms(1), where cs = "[]"]) (use assms(2-4) in auto)

lemma dispatch_ended_fields [simp]:
  "calls (dispatch_ended n s) = calls s"
  "length (nodes (dispatch_ended n s)) = length (nodes s)"
  "audioSourceRef (dispatch_ended n s) = audioSourceRef s \<or> audioSourceRef (dispatch_ended n s) = None"
  by (simp_all add: dispatch_ended_def run_handler_def update_node_def Let_def
      split: option.splits handler.splits)

section \<open>Every reachable state satisfies the invariants\<close>

lemma stopPlayback_context:
  "stopPlayback s = Inr s' \<Longrightarrow> audioContextRef s' = audioContextRef s"
  by (auto simp: stopPlayback_def node_stop_def set_onended_def update_node_def log_call_def
      split: option.splits if_splits)

lemma togglePlayback_context:
  "togglePlayback p b s = Inr s' \<Longrightarrow> audioContextRef s' = None \<longleftrightarrow> audioContextRef s = None"
  by (auto simp: togglePlayback_def createBufferSource_def set_buffer_def node_connect_def
      set_onended_def node_start_def update_node_def log_call_def ctx_resume_def Let_def
      dest: stopPlayback_context split: option.splits if_splits)

lemma dispatch_ended_context [simp]:
  "audioContextRef (dispatch_ended n s) = audioContextRef s"
  by (simp add: dispatch_ended_def run_handler_def update_node_def Let_def
      split: option.splits handler.splits)

lemma resume_settles_context:
  "audioContextRef (resume_settles s) = None \<longleftrightarrow> audioContextRef s = None"
  by (simp add: resume_settles_def)

lemma dispatch_ended_buffer [simp]:
  "audioBuffer (dispatch_ended n s) = audioBuffer s"
  by (simp add: dispatch_ended_def run_handler_def update_node_def Let_def
      split: option.splits handler.splits)

lemma afterConvert_buffer:
  "audioBuffer s \<noteq> None \<Longrightarrow> audioBuffer (handleSubmit_afterConvert r s) \<noteq> None"
  by (simp add: handleSubmit_afterConvert_def split: sum.splits)

lemma world_inv_playback: "world_inv w \<Longrightarrow> playback_inv (app w)"
  unfolding world_inv_def by blast

lemma world_inv_calls: "world_inv w \<Longrightarrow> calls_inv (app w)"
  unfolding world_inv_def by blast

lemma world_inv_seen_playing:
  "world_inv w \<Longrightarrow> audioSourceRef (app w) \<noteq> None \<Longrightarrow> rendered_isPlaying w"
  unfolding world_inv_def by blast

lemma world_inv_seen_buffer:
  "world_inv w \<Longrightarrow> rendered_audioBuffer w \<noteq> None \<Longrightarrow> audioBuffer (app w) \<noteq> None"
  unfolding world_inv_def by blast

lemma world_inv_convert:
  "world_inv w \<Longrightarrow> AwaitConvert \<in> set (waiting w) \<Longrightarrow> audioContextRef (app w) \<noteq> None"
  unfolding world_inv_def by blast

lemma world_inv_uncaught: "world_inv w \<Longrightarrow> uncaught w = []"
  unfolding world_inv_def by blast

lemma world_invI:
  assumes "playback_inv (app w)" "calls_inv (app w)"
    and "audioSourceRef (app w) \<noteq> None \<Longrightarrow> rendered_isPlaying w"
    and "rendered_audioBuffer w \<noteq> None \<Longrightarrow> audioBuffer (app w) \<noteq> None"
    and "AwaitConvert \<in> set (waiting w) \<Longrightarrow> audioContextRef (app w) \<noteq> None"
    and "uncaught w = []"
  shows "world_inv w"
  unfolding world_inv_def using assms by blast

text \<open>After a render the callback holds the current values.\<close>

lemma world_inv_render:
  assumes "playback_inv (app w)" "calls_inv (app w)"
    and "AwaitConvert \<in> set (waiting w) \<Longrightarrow> audioContextRef (app w) \<noteq> None"
    and "uncaught w = []"
  shows "world_inv (render w)"
proof (rule world_invI)
  show "playback_inv (app (render w))" using assms(1) by (simp add: render_def)
  show "calls_inv (app (render w))" using assms(2) by (simp add: render_def)
  show "rendered_isPlaying (render w)" if "audioSourceRef (app (render w)) \<noteq> None"
  proof -
    from that have "audioSourceRef (app w) \<noteq> None" by (simp add: render_def)
    with playback_inv_playing [OF assms(1)] show ?thesis by (simp add: render_def)
  qed
  show "audioBuffer (app (render w)) \<noteq> None" if "rendered_audioBuffer (render w) \<noteq> None"
    using that by (simp add: render_def)
  show "audioContextRef (app (render w)) \<noteq> None" if "AwaitConvert \<in> set (waiting (render w))"
  proof -
    from that have "AwaitConvert \<in> set (waiting w)" by (simp add: render_def)
    from assms(3) [OF this] show ?thesis by (simp add: render_def)
  qed
  show "uncaught (render w) = []" using assms(4) by (simp add: render_def)
qed

text \<open>
  A step without a render: the callback keeps its values, so the ref may only be kept or
  emptied and a buffer may not be discarded.
\<close>

lemma world_inv_keep:
  assumes inv: "world_inv w" and "playback_inv s'" "calls_inv s'"
    and ref: "audioSourceRef s' = audioSourceRef (app w) \<or> audioSourceRef s' = None"
    and buf: "audioBuffer (app w) \<noteq> None \<Longrightarrow> audioBuffer s' \<noteq> None"
    and cv: "AwaitConvert \<in> set ws \<Longrightarrow> audioContextRef s' \<noteq> None"
  shows "world_inv (w\<lparr>app := s', waiting := ws\<rparr>)"
proof (rule world_invI)
  show "playback_inv (app (w\<lparr>app := s', waiting := ws\<rparr>))" using assms(2) by simp
  show "calls_inv (app (w\<lparr>app := s', waiting := ws\<rparr>))" using assms(3) by simp
  show "rendered_isPlaying (w\<lparr>app := s', waiting := ws\<rparr>)"
    if "audioSourceRef (app (w\<lparr>app := s', waiting := ws\<rparr>)) \<noteq> None"
  proof -
    from that have "audioSourceRef s' \<noteq> None" by simp
    with ref have "audioSourceRef (app w) \<noteq> None" by auto
    from world_inv_seen_playing [OF inv this] show ?thesis by simp
  qed
  show "audioBuffer (app (w\<lparr>app := s', waiting := ws\<rparr>)) \<noteq> None"
    if "rendered_audioBuffer (w\<lparr>app := s', waiting := ws\<rparr>) \<noteq> None"
  proof -
    from that have "rendered_audioBuffer w \<noteq> None" by simp
    from buf [OF world_inv_seen_buffer [OF inv this]] show ?thesis by simp
  qed
  show "audioContextRef (app (w\<lparr>app := s', waiting := ws\<rparr>)) \<noteq> None"
    if "AwaitConvert \<in> set (waiting (w\<lparr>app := s', waiting := ws\<rparr>))"
  proof -
    from that have "AwaitConvert \<in> set ws" by simp
    from cv [OF this] show ?thesis by simp
  qed
  show "uncaught (w\<lparr>app := s', waiting := ws\<rparr>) = []"
    using world_inv_uncaught [OF inv] by simp
qed

lemma world_inv_step:
  assumes "world_inv w"
  shows "world_inv (step ev w)"
proof -
  note inv = world_inv_playback [OF assms]
  note cinv = world_inv_calls [OF assms]
  note cv = world_inv_convert [OF assms]
  note un = world_inv_uncaught [OF assms]
  show ?thesis
  proof (cases ev)
    case (TypeUrl u)
    have "playback_inv ((app w)\<lparr>url := u\<rparr>)"
      by (rule playback_inv_frame [OF inv]) (use playback_inv_context [OF inv] in simp_all)
    moreover have "calls_inv ((app w)\<lparr>url := u\<rparr>)"
      by (rule calls_inv_same [OF cinv]) simp_all
    ultimately have "world_inv (render (w\<lparr>app := (app w)\<lparr>url := u\<rparr>\<rparr>))"
      by (intro world_inv_render) (use cv un in simp_all)
    with TypeUrl show ?thesis by (simp add: step_def)
  next
    case Submit
    from playback_inv_enter [OF inv refl] obtain s' p
      where eq: "handleSubmit_enter (app w) = Inr (s', p)" and pinv: "playback_inv s'"
        and ctx: "audioContextRef s' = audioContextRef (app w)" by blast
    have cinv': "calls_inv s'" by (rule calls_inv_enter [OF cinv inv eq])
    show ?thesis
    proof (cases p)
      case None
      have "world_inv (render (w\<lparr>app := s'\<rparr>))"
        by (intro world_inv_render) (use pinv cinv' cv un ctx in simp_all)
      with Submit eq None show ?thesis by (simp add: step_def)
    next
      case (Some u)
      have "world_inv (render (w\<lparr>app := s', waiting := AwaitSummary # waiting w\<rparr>))"
        by (intro world_inv_render) (use pinv cinv' cv un ctx in simp_all)
      with Submit eq Some show ?thesis by (simp add: step_def)
    qed
  next
    case (SummarySettles r)
    show ?thesis
    proof (cases "AwaitSummary \<in> set (waiting w)")
      case False
      with assms SummarySettles show ?thesis by (simp add: step_def)
    next
      case True
      obtain s' nxt where eq: "handleSubmit_afterSummary r (app w) = (s', nxt)" by force
      then have s': "s' = fst (handleSubmit_afterSummary r (app w))" by simp
      have pinv: "playback_inv s'" unfolding s' by (rule playback_inv_afterSummary [OF inv])
      have cinv': "calls_inv s'"
        unfolding s' by (rule calls_inv_same [OF cinv]) (simp_all add: afterSummary_fields)
      have same: "audioContextRef s' = audioContextRef (app w)"
        "audioSourceRef s' = audioSourceRef (app w)" "audioBuffer s' = audioBuffer (app w)"
        unfolding s' by (rule afterSummary_fields)+
      have keep: "world_inv (w\<lparr>app := s', waiting := ws\<rparr>)"
        if "AwaitConvert \<in> set ws \<Longrightarrow> AwaitConvert \<in> set (waiting w)" for ws
      proof (rule world_inv_keep [OF assms pinv cinv'])
        show "audioSourceRef s' = audioSourceRef (app w) \<or> audioSourceRef s' = None"
          using same(2) by simp
        show "audioBuffer s' \<noteq> None" if "audioBuffer (app w) \<noteq> None"
          using that same(3) by simp
        show "audioContextRef s' \<noteq> None" if c: "AwaitConvert \<in> set ws"
          using cv [OF \<open>AwaitConvert \<in> set ws \<Longrightarrow> AwaitConvert \<in> set (waiting w)\<close> [OF c]] same(1)
          by simp
      qed
      show ?thesis
      proof (cases nxt)
        case None
        have "world_inv (w\<lparr>app := s', waiting := remove1 AwaitSummary (waiting w)\<rparr>)"
          by (rule keep) (simp add: in_set_remove1)
        with SummarySettles True eq None show ?thesis by (simp add: step_def)
      next
        case (Some t)
        have "world_inv (w\<lparr>app := s', waiting := AwaitSpeech # remove1 AwaitSummary (waiting w)\<rparr>)"
          by (rule keep) (simp add: in_set_remove1)
        with SummarySettles True eq Some show ?thesis by (simp add: step_def)
      qed
    qed
  next
    case (SpeechSettles env r)
    show ?thesis
    proof (cases "AwaitSpeech \<in> set (waiting w)")
      case False
      with assms SpeechSettles show ?thesis by (simp add: step_def)
    next
      case True
      obtain s' nxt where eq: "handleSubmit_afterSpeech env r (app w) = (s', nxt)" by force
      have pinv: "playback_inv s'" by (rule playback_inv_afterSpeech [OF inv eq])
      have cinv': "calls_inv s'" by (rule calls_inv_afterSpeech [OF cinv eq])
      note f = afterSpeech_fields [OF eq]
      have keep: "world_inv (w\<lparr>app := s', waiting := ws\<rparr>)"
        if "AwaitConvert \<in> set ws \<Longrightarrow> AwaitConvert \<in> set (waiting w) \<or> nxt \<noteq> None" for ws
      proof (rule world_inv_keep [OF assms pinv cinv'])
        show "audioSourceRef s' = audioSourceRef (app w) \<or> audioSourceRef s' = None"
          using f(2) by simp
        show "audioBuffer s' \<noteq> None" if "audioBuffer (app w) \<noteq> None"
          using that f(4) by simp
        show "audioContextRef s' \<noteq> None" if c: "AwaitConvert \<in> set ws"
        proof -
          from \<open>AwaitConvert \<in> set ws \<Longrightarrow> AwaitConvert \<in> set (waiting w) \<or> nxt \<noteq> None\<close> [OF c]
          show ?thesis
          proof
            assume "AwaitConvert \<in> set (waiting w)"
            from cv [OF this] f(5) show ?thesis by blast
          next
            assume "nxt \<noteq> None"
            with f(6) show ?thesis by blast
          qed
        qed
      qed
      show ?thesis
      proof (cases nxt)
        case None
        have "world_inv (w\<lparr>app := s', waiting := remove1 AwaitSpeech (waiting w)\<rparr>)"
          by (rule keep) (simp add: in_set_remove1)
        with SpeechSettles True eq None show ?thesis by (simp add: step_def)
      next
        case (Some args)
        have "world_inv (w\<lparr>app := s', waiting := AwaitConvert # remove1 AwaitSpeech (waiting w)\<rparr>)"
          by (rule keep) (simp add: Some)
        with SpeechSettles True eq Some show ?thesis by (simp add: step_def)
      qed
    qed
  next
    case (ConvertSettles r)
    show ?thesis
    proof (cases "AwaitConvert \<in> set (waiting w)")
      case False
      with assms ConvertSettles show ?thesis by (simp add: step_def)
    next
      case True
      let ?s' = "handleSubmit_afterConvert r (app w)"
      from cv [OF True] have pinv: "playback_inv ?s'"
        by (rule playback_inv_afterConvert [OF inv])
      have cinv': "calls_inv ?s'"
        by (rule calls_inv_same [OF cinv]) (simp_all add: afterConvert_fields)
      have "world_inv (w\<lparr>app := ?s', waiting := remove1 AwaitConvert (waiting w)\<rparr>)"
      proof (rule world_inv_keep [OF assms pinv cinv'])
        show "audioSourceRef ?s' = audioSourceRef (app w) \<or> audioSourceRef ?s' = None"
          by (simp add: afterConvert_fields)
        show "audioBuffer ?s' \<noteq> None" if "audioBuffer (app w) \<noteq> None"
          using that by (rule afterConvert_buffer)
        show "audioContextRef ?s' \<noteq> None"
          using cv [OF True] by (simp add: afterConvert_fields)
      qed
      with ConvertSettles True show ?thesis by (simp add: step_def)
    qed
  next
    case Toggle
    have stale: "audioSourceRef (app w) = None" if "\<not> rendered_isPlaying w"
      using world_inv_seen_playing [OF assms] that by blast
    from playback_inv_toggle [OF inv stale] obtain s'
      where eq: "togglePlayback (rendered_isPlaying w) (rendered_audioBuffer w) (app w) = Inr s'"
        and pinv: "playback_inv s'" by blast
    have cinv': "calls_inv s'" by (rule calls_inv_toggle [OF cinv inv eq])
    have "world_inv (render (w\<lparr>app := s'\<rparr>))"
    proof (rule world_inv_render)
      show "audioContextRef (app (w\<lparr>app := s'\<rparr>)) \<noteq> None"
        if "AwaitConvert \<in> set (waiting (w\<lparr>app := s'\<rparr>))"
      proof -
        from that have "AwaitConvert \<in> set (waiting w)" by simp
        from cv [OF this] togglePlayback_context [OF eq] show ?thesis by simp
      qed
    qed (use pinv cinv' un in simp_all)
    with Toggle eq show ?thesis by (simp add: step_def)
  next
    case (SoundEnds n)
    have cinv': "calls_inv (sound_ends n (app w))"
      by (rule calls_inv_same [OF cinv]) simp_all
    have "world_inv (w\<lparr>app := sound_ends n (app w), waiting := waiting w\<rparr>)"
      by (rule world_inv_keep [OF assms playback_inv_sound_ends [OF inv] cinv'])
         (use cv in simp_all)
    with SoundEnds show ?thesis by (simp add: step_def)
  next
    case (DispatchEnded n)
    have cinv': "calls_inv (dispatch_ended n (app w))"
      by (rule calls_inv_same [OF cinv]) simp_all
    have "world_inv (w\<lparr>app := dispatch_ended n (app w), waiting := waiting w\<rparr>)"
      by (rule world_inv_keep [OF assms playback_inv_dispatch_ended [OF inv] cinv'])
         (use cv in simp_all)
    with DispatchEnded show ?thesis by (simp add: step_def)
  next
    case ResumeSettles
    have cinv': "calls_inv (resume_settles (app w))"
      by (rule calls_inv_same [OF cinv]) (simp_all add: resume_settles_def)
    have "world_inv (w\<lparr>app := resume_settles (app w), waiting := waiting w\<rparr>)"
    proof (rule world_inv_keep [OF assms playback_inv_resume_settles [OF inv] cinv'])
      show "audioContextRef (resume_settles (app w)) \<noteq> None" if "AwaitConvert \<in> set (waiting w)"
        using cv [OF that] by (simp add: resume_settles_context)
    qed (simp_all add: resume_settles_def)
    with ResumeSettles show ?thesis by (simp add: step_def)
  next
    case Render
    have "world_inv (render w)"
      by (rule world_inv_render [OF inv cinv cv un])
    with Render show ?thesis by (simp add: step_def)
  qed
qed

lemma run_snoc: "run (evs @ [ev]) w = step ev (run evs w)"
  by (simp add: run_def)

lemma playback_inv_initial: "playback_inv initial_state"
  by (rule playback_inv_idle) (simp_all add: initial_state_def)

lemma calls_inv_initial: "calls_inv initial_state"
  by (simp add: calls_inv_def initial_state_def)

lemma world_inv_run: "world_inv (run evs initial_world)"
proof (induction evs rule: rev_induct)
  case Nil
  have "world_inv initial_world"
    by (rule world_invI)
       (simp_all add: initial_world_def playback_inv_initial calls_inv_initial,
        simp_all add: initial_state_def)
  then show ?case by (simp add: run_def)
next
  case (snoc ev evs)
  then show ?case by (simp add: run_snoc world_inv_step)
qed

section \<open>Consequences of the invariants\<close>

lemma active_instances_ref:
  assumes "playback_inv s" "i \<in> set (active_instances s)"
  shows "audioSourceRef s = Some i"
proof -
  from assms(2) have "i < length (nodes s)" "playState (nodes s ! i) = Started"
    by (simp_all add: active_instances_def)
  then show ?thesis by (rule playback_inv_started [OF assms(1)])
qed

lemma active_instances_idle:
  assumes "playback_inv s" "audioSourceRef s = None"
  shows "active_instances s = []"
proof (rule ccontr)
  assume "active_instances s \<noteq> []"
  then obtain i where "i \<in> set (active_instances s)" by (cases "active_instances s") auto
  from active_instances_ref [OF assms(1) this] assms(2) show False by simp
qed

lemma active_instances_le_one:
  assumes "playback_inv s"
  shows "length (active_instances s) \<le> 1"
proof (cases "audioSourceRef s")
  case None
  with assms show ?thesis by (simp add: active_instances_idle)
next
  case (Some n)
  have "set (active_instances s) \<subseteq> {n}"
    using active_instances_ref [OF assms] Some by auto
  then have "card (set (active_instances s)) \<le> card {n}"
    by (intro card_mono) simp_all
  moreover have "distinct (active_instances s)" by (simp add: active_instances_def)
  ultimately show ?thesis by (simp add: distinct_card)
qed

lemma active_instances_started:
  assumes "active_instances s = []" "nodes s' = nodes s @ [nd]" "playState nd = Started"
  shows "active_instances s' = [length (nodes s)]"
proof -
  have old: "filter (\<lambda>i. playState ((nodes s @ [nd]) ! i) = Started) [0..<length (nodes s)] =
             filter (\<lambda>i. playState (nodes s ! i) = Started) [0..<length (nodes s)]"
    by (rule filter_cong) (simp_all add: nth_append)
  show ?thesis
    using assms(1,3) by (simp add: active_instances_def assms(2) old)
qed

lemma dispatch_ended_stale:
  assumes "playback_inv s" "audioSourceRef s \<noteq> Some n"
  shows "isPlaying (dispatch_ended n s) = isPlaying s \<and>
         audioSourceRef (dispatch_ended n s) = audioSourceRef s"
proof (cases "n < length (nodes s) \<and> ended_pending (nodes s ! n)")
  case False
  then show ?thesis by (simp add: dispatch_ended_disabled)
next
  case True
  then have n: "n < length (nodes s)" and p: "ended_pending (nodes s ! n)" by simp_all
  have "onended (nodes s ! n) = None"
  proof (rule ccontr)
    assume "onended (nodes s ! n) \<noteq> None"
    from playback_inv_pending [OF assms(1) n p this] assms(2) show False by simp
  qed
  with n p show ?thesis by (simp add: dispatch_ended_detached)
qed

lemma stopPlayback_after_handler:
  "stopPlayback (run_handler EndedHandler s) = Inr (run_handler EndedHandler s)"
  by (simp add: stopPlayback_def run_handler_def)

lemma stopPlayback_calls:
  assumes "stopPlayback s = Inr s'"
  shows "\<exists>cs. calls s' = calls s @ cs \<and> (\<forall>b. CallDecode b \<notin> set cs) \<and>
              (\<forall>raw. CallDecodeAudioData raw \<notin> set cs)"
  using assms
  by (auto simp: stopPlayback_def node_stop_def set_onended_def update_node_def log_call_def
      split: option.splits if_splits)

lemma ensure_context_cases:
  obtains (present) ctx where "audioContextRef s = Some ctx" "ensure_context env s = Inr (ctx, s)"
  | (failed) err where "audioContextRef s = None" "newAudioContext env 24000 = Inl err"
      "ensure_context env s = Inl (err, log_call (NewAudioContext 24000) s)"
  | (created) ctx where "audioContextRef s = None" "newAudioContext env 24000 = Inr ctx"
      "ensure_context env s =
         Inr (ctx, log_call (NewAudioContext 24000) (s\<lparr>audioContextRef := Some ctx\<rparr>))"
  by (cases "audioContextRef s"; cases "newAudioContext env 24000") (auto simp: ensure_context_def)

lemma afterSpeech_outcome:
  assumes "handleSubmit_afterSpeech env r s = (s', nxt)"
  shows "url s' = url s \<and>
        ((nxt = None \<and> error s' \<noteq> None \<and> \<not> isLoading s') \<or>
         (\<exists>b64 decodedBytes ctx. r = Inr (Some b64) \<and> utils_decode env b64 = Inr decodedBytes \<and>
             nxt = Some (decodedBytes, ctx) \<and> audioContextRef s' = Some ctx \<and>
             error s' = error s \<and> isLoading s' = isLoading s))"
proof (cases r)
  case (Inl e)
  with assms show ?thesis by (auto simp: handleSubmit_afterSpeech_def)
next
  case (Inr v)
  show ?thesis
  proof (cases v)
    case None
    with Inr assms show ?thesis by (auto simp: handleSubmit_afterSpeech_def)
  next
    case (Some b64)
    show ?thesis
    proof (cases "b64 = []")
      case True
      with Inr Some assms show ?thesis by (auto simp: handleSubmit_afterSpeech_def)
    next
      case False
      show ?thesis
      proof (cases rule: ensure_context_cases [of s env])
        case (present ctx)
        with Inr Some False assms show ?thesis
          by (cases "utils_decode env b64") (auto simp: handleSubmit_afterSpeech_def Let_def)
      next
        case (failed err)
        with Inr Some False assms show ?thesis
          by (auto simp: handleSubmit_afterSpeech_def Let_def)
      next
        case (created ctx)
        with Inr Some False assms show ?thesis
          by (cases "utils_decode env b64") (auto simp: handleSubmit_afterSpeech_def Let_def)
      qed
    qed
  qed
qed

lemma handleSubmit_outcome:
  assumes inv: "playback_inv s" and url: "trim (url s) \<noteq> []"
  shows "\<exists>s'. handleSubmit env s = Inr s' \<and> playback_inv s' \<and> \<not> isPlaying s' \<and>
           audioSourceRef s' = None \<and> \<not> isLoading s' \<and> url s' = url s \<and>
           ((\<exists>summaryText audioB64 decodedBytes ctx buffer.
               summarizeArticleFromUrl (generateContent env) (url s) = Inr summaryText \<and>
               generateSpeechFromText (generateContent env) summaryText = Inr (Some audioB64) \<and>
               utils_decode env audioB64 = Inr decodedBytes \<and>
               audioContextRef s' = Some ctx \<and>
               utils_decodeAudioData env decodedBytes ctx 24000 1 = Inr buffer \<and>
               audioBuffer s' = Some buffer \<and> error s' = None)
            \<or> (audioBuffer s' = None \<and> error s' \<noteq> None))"
proof -
  let ?s0 = "s\<lparr>isLoading := True, error := None, summary := [], audioBuffer := None\<rparr>"
  have inv0: "playback_inv ?s0" by (rule playback_inv_frame [OF inv]) simp_all
  from playback_inv_stop [OF inv0] obtain s1
    where s1: "stopPlayback ?s0 = Inr s1" "playback_inv s1" "\<not> isPlaying s1"
      "audioSourceRef s1 = None" "audioBuffer s1 = None" by auto
  have s1_more: "url s1 = url s" "error s1 = None"
    using s1(1)
    by (auto simp: stopPlayback_def node_stop_def set_onended_def update_node_def log_call_def
        split: option.splits if_splits)
  have enter: "handleSubmit_enter s = Inr (s1, Some (url s))"
    using url s1(1) by (simp add: handleSubmit_enter_def)
  obtain s2 n2 where a2: "handleSubmit_afterSummary
      (summarizeArticleFromUrl (generateContent env) (url s)) s1 = (s2, n2)" by force
  have inv2: "playback_inv s2"
    using playback_inv_afterSummary [OF s1(2), of "summarizeArticleFromUrl (generateContent env) (url s)"]
    by (simp add: a2)
  have f2: "isPlaying s2 = isPlaying s1" "audioSourceRef s2 = audioSourceRef s1"
    "audioBuffer s2 = audioBuffer s1"
    using afterSummary_fields [of "summarizeArticleFromUrl (generateContent env) (url s)" s1]
    by (simp_all add: a2)
  have u2: "url s2 = url s1"
    using a2 by (auto simp: handleSubmit_afterSummary_def split: sum.splits)
  show ?thesis
  proof (cases n2)
    case None
    with a2 have "error s2 \<noteq> None" "\<not> isLoading s2"
      by (auto simp: handleSubmit_afterSummary_def split: sum.splits)
    moreover from None a2 enter have "handleSubmit env s = Inr s2"
      by (simp add: handleSubmit_def)
    ultimately show ?thesis using inv2 f2 s1 u2 s1_more by simp
  next
    case (Some summaryText)
    with a2 have sum: "summarizeArticleFromUrl (generateContent env) (url s) = Inr summaryText"
      and e2: "error s2 = error s1"
      by (auto simp: handleSubmit_afterSummary_def split: sum.splits)
    obtain s3 n3 where a3: "handleSubmit_afterSpeech env
        (generateSpeechFromText (generateContent env) summaryText) s2 = (s3, n3)" by force
    have inv3: "playback_inv s3" by (rule playback_inv_afterSpeech [OF inv2 a3])
    note f3 = afterSpeech_fields(1,2,4) [OF a3]
    from afterSpeech_outcome [OF a3] have u3: "url s3 = url s2" by (rule conjunct1)
    from afterSpeech_outcome [OF a3, THEN conjunct2] show ?thesis
    proof
      assume "n3 = None \<and> error s3 \<noteq> None \<and> \<not> isLoading s3"
      moreover from this Some a2 a3 enter have "handleSubmit env s = Inr s3"
        by (simp add: handleSubmit_def)
      ultimately show ?thesis using inv3 f3 f2 s1 u3 u2 s1_more by simp
    next
      assume "\<exists>b64 decodedBytes ctx.
          generateSpeechFromText (generateContent env) summaryText = Inr (Some b64) \<and>
          utils_decode env b64 = Inr decodedBytes \<and> n3 = Some (decodedBytes, ctx) \<and>
          audioContextRef s3 = Some ctx \<and> error s3 = error s2 \<and> isLoading s3 = isLoading s2"
      then obtain b64 decodedBytes ctx
        where sp: "generateSpeechFromText (generateContent env) summaryText = Inr (Some b64)"
          and de: "utils_decode env b64 = Inr decodedBytes"
          and n3: "n3 = Some (decodedBytes, ctx)"
          and c3: "audioContextRef s3 = Some ctx" and e3: "error s3 = error s2" by blast
      let ?s4 = "handleSubmit_afterConvert (utils_decodeAudioData env decodedBytes ctx 24000 1) s3"
      from c3 have "audioContextRef s3 \<noteq> None" by simp
      then have inv4: "playback_inv ?s4" by (rule playback_inv_afterConvert [OF inv3])
      have res: "handleSubmit env s = Inr ?s4"
        using Some a2 a3 n3 enter by (simp add: handleSubmit_def)
      have u4: "url ?s4 = url s3"
        by (auto simp: handleSubmit_afterConvert_def split: sum.splits)
      show ?thesis
      proof (cases "utils_decodeAudioData env decodedBytes ctx 24000 1")
        case (Inl e)
        then have "audioBuffer ?s4 = None" "error ?s4 \<noteq> None"
          using f3 f2 s1 by (simp_all add: handleSubmit_afterConvert_def)
        with res inv4 f3 f2 s1 u4 u3 u2 s1_more show ?thesis
          by (simp add: afterConvert_fields)
      next
        case (Inr buffer)
        then have "audioBuffer ?s4 = Some buffer" "error ?s4 = None" "audioContextRef ?s4 = Some ctx"
          using e3 e2 s1_more c3 by (simp_all add: handleSubmit_afterConvert_def)
        with res inv4 f3 f2 s1 u4 u3 u2 s1_more sum sp de Inr show ?thesis
          by (simp add: afterConvert_fields)
      qed
    qed
  qed
qed

text \<open>The two services replace every failure of the model call by an error of their own.\<close>

lemma summarize_failure:
  "summarizeArticleFromUrl gc u = Inl e \<Longrightarrow> e = Error ''Failed to get summary from the article URL.''"
  by (auto simp: summarizeArticleFromUrl_def Let_def split: sum.splits)

lemma speech_failure:
  "generateSpeechFromText gc t = Inl e \<Longrightarrow> e = Error ''Failed to convert summary to audio.''"
  by (auto simp: generateSpeechFromText_def Let_def split: sum.splits)

lemma handleSubmit_summary_failure:
  assumes inv: "playback_inv s" and url: "trim (url s) \<noteq> []"
    and fails: "summarizeArticleFromUrl (generateContent env) (url s) = Inl e"
  shows "\<exists>s'. handleSubmit env s = Inr s' \<and>
           error s' = Some ''Failed to get summary from the article URL.''"
proof -
  let ?s0 = "s\<lparr>isLoading := True, error := None, summary := [], audioBuffer := None\<rparr>"
  have "playback_inv ?s0" by (rule playback_inv_frame [OF inv]) simp_all
  from playback_inv_stop [OF this] obtain s1 where s1: "stopPlayback ?s0 = Inr s1" by blast
  from url s1 have enter: "handleSubmit_enter s = Inr (s1, Some (url s))"
    by (simp add: handleSubmit_enter_def)
  from summarize_failure [OF fails] fails
  have "summarizeArticleFromUrl (generateContent env) (url s) =
      Inl (Error ''Failed to get summary from the article URL.'')" by simp
  then show ?thesis
    by (simp add: handleSubmit_def enter handleSubmit_afterSummary_def handleSubmit_catch_def
        error_message_def)
qed

lemma handleSubmit_speech_failure:
  assumes inv: "playback_inv s" and url: "trim (url s) \<noteq> []"
    and summ: "summarizeArticleFromUrl (generateContent env) (url s) = Inr t"
    and fails: "generateSpeechFromText (generateContent env) t = Inl e"
  shows "\<exists>s'. handleSubmit env s = Inr s' \<and>
           error s' = Some ''Failed to convert summary to audio.''"
proof -
  let ?s0 = "s\<lparr>isLoading := True, error := None, summary := [], audioBuffer := None\<rparr>"
  have "playback_inv ?s0" by (rule playback_inv_frame [OF inv]) simp_all
  from playback_inv_stop [OF this] obtain s1 where s1: "stopPlayback ?s0 = Inr s1" by blast
  from url s1 have enter: "handleSubmit_enter s = Inr (s1, Some (url s))"
    by (simp add: handleSubmit_enter_def)
  from speech_failure [OF fails] fails
  have "generateSpeechFromText (generateContent env) t =
      Inl (Error ''Failed to convert summary to audio.'')" by simp
  then show ?thesis
    by (simp add: handleSubmit_def enter summ handleSubmit_afterSummary_def
        handleSubmit_afterSpeech_def handleSubmit_catch_def error_message_def)
qed

section \<open>The concrete event sequence, evaluated\<close>

lemma inline_audio_demo [simp]: "inline_audio (demo_response payload) = payload"
  by (simp add: inline_audio_def demo_response_def first_elem_def)

lemma trim_demo: "trim ''http://a'' = ''http://a''"
  by (simp add: trim_def is_white_space_def)

lemma run_demo_events:
  "run demo_events initial_world =
     \<lparr>app = ready_state, rendered_isPlaying = False, rendered_audioBuffer = Some demo_buffer,
      waiting = [], uncaught = []\<rparr>"
  by (simp add: run_def demo_events_def initial_world_def initial_state_def step_def render_def
      handleSubmit_enter_def trim_demo stopPlayback_def handleSubmit_afterSummary_def
      handleSubmit_afterSpeech_def ensure_context_def demo_env_def log_call_def
      handleSubmit_afterConvert_def ready_state_def demo_context_def)

lemma toggle_ready_state: "togglePlayback False (Some demo_buffer) ready_state = Inr playing_state"
  by (simp add: togglePlayback_start [where buf = demo_buffer and ctx = demo_context]
      ready_state_def playing_state_def demo_context_def ctx_resume_def log_call_def)

lemma run_demo_events_toggle:
  "run (demo_events @ [Toggle]) initial_world =
     \<lparr>app = playing_state, rendered_isPlaying = True, rendered_audioBuffer = Some demo_buffer,
      waiting = [], uncaught = []\<rparr>"
  by (simp add: run_snoc run_demo_events step_def render_def toggle_ready_state)
     (simp add: playing_state_def ready_state_def)

lemma stop_playing_state: "stopPlayback playing_state = Inr stopped_state"
  by (simp add: stopPlayback_def playing_state_def stopped_state_def set_onended_def node_stop_def
      update_node_def log_call_def new_node_def)

lemma playing_state_ends:
  "dispatch_ended 0 (sound_ends 0 playing_state) = ended_state"
  by (simp add: sound_ends_def dispatch_ended_def update_node_def run_handler_def
      playing_state_def ended_state_def new_node_def)

lemma run_demo_events_ended:
  "run (demo_events @ [Toggle, SoundEnds 0, DispatchEnded 0]) initial_world =
     \<lparr>app = ended_state, rendered_isPlaying = True, rendered_audioBuffer = Some demo_buffer,
      waiting = [], uncaught = []\<rparr>"
proof -
  have "run (demo_events @ [Toggle, SoundEnds 0, DispatchEnded 0]) initial_world =
      step (DispatchEnded 0) (step (SoundEnds 0) (run (demo_events @ [Toggle]) initial_world))"
    by (simp add: run_def)
  then show ?thesis
    by (simp add: run_demo_events_toggle step_def playing_state_ends)
qed

lemma run_demo_events_stopped:
  "run (demo_events @ [Toggle, Toggle]) initial_world =
     \<lparr>app = stopped_state, rendered_isPlaying = False, rendered_audioBuffer = Some demo_buffer,
      waiting = [], uncaught = []\<rparr>"
proof -
  have "run (demo_events @ [Toggle, Toggle]) initial_world =
      step Toggle (run (demo_events @ [Toggle]) initial_world)"
    by (simp add: run_def)
  then show ?thesis
    by (simp add: run_demo_events_toggle step_def render_def togglePlayback_stale
        stop_playing_state)
       (simp add: stopped_state_def playing_state_def ready_state_def)
qed

lemma url_playing_state: "url playing_state = ''http://a''"
  by (simp add: playing_state_def ready_state_def)

lemma summarize_demo:
  "summarizeArticleFromUrl (generateContent (demo_env payload)) u = Inr ''News.''"
  by (simp add: summarizeArticleFromUrl_def demo_env_def demo_response_def)

lemma speech_demo_absent:
  "generateSpeechFromText (generateContent (demo_env None)) t = Inr None"
  by (simp add: generateSpeechFromText_def demo_env_def falsy_def)

lemma handleSubmit_absent_audio: "handleSubmit (demo_env None) playing_state = Inr failed_state"
proof -
  let ?s0 = "playing_state\<lparr>isLoading := True, error := None, summary := [], audioBuffer := None\<rparr>"
  have stop: "stopPlayback ?s0 =
      Inr (stopped_state\<lparr>isLoading := True, error := None, summary := [], audioBuffer := None\<rparr>)"
    by (simp add: stopPlayback_def playing_state_def stopped_state_def set_onended_def node_stop_def
      update_node_def log_call_def new_node_def)
  have enter: "handleSubmit_enter playing_state =
      Inr (stopped_state\<lparr>isLoading := True, error := None, summary := [], audioBuffer := None\<rparr>,
           Some ''http://a'')"
    by (simp add: handleSubmit_enter_def url_playing_state trim_demo stop)
  show ?thesis
    by (simp add: handleSubmit_def enter summarize_demo speech_demo_absent
        handleSubmit_afterSummary_def handleSubmit_afterSpeech_def handleSubmit_catch_def
        error_message_def failed_state_def)
qed

lemma summarize_no_summary:
  "summarizeArticleFromUrl (generateContent demo_env_no_summary) u =
     Inl (Error ''Failed to get summary from the article URL.'')"
  by (simp add: summarizeArticleFromUrl_def demo_env_no_summary_def)

lemma summarize_no_speech:
  "summarizeArticleFromUrl (generateContent demo_env_no_speech) u = Inr ''News.''"
  by (simp add: summarizeArticleFromUrl_def demo_env_no_speech_def demo_response_def)

lemma speech_no_speech:
  "generateSpeechFromText (generateContent demo_env_no_speech) t =
     Inl (Error ''Failed to convert summary to audio.'')"
  by (simp add: generateSpeechFromText_def demo_env_no_speech_def)

section \<open>Base64: decoding inverts encoding\<close>

lemma b64_value_char: "v < 64 \<Longrightarrow> b64_value (b64_char v) = Some v"
  by (auto simp: b64_value_def b64_char_def Let_def)

lemma b64_char_not_pad: "v < 64 \<Longrightarrow> b64_char v \<noteq> CHR ''=''"
proof
  assume v: "v < 64" and "b64_char v = CHR ''=''"
  then have "b64_value (b64_char v) = b64_value (CHR ''='')" by simp
  with v show False by (simp add: b64_value_char) (simp add: b64_value_def)
qed

lemma sextet_bounds:
  fixes x y z :: nat
  assumes "x < 256" "y < 256" "z < 256"
  shows "x div 4 < 64" "x mod 4 * 16 + y div 16 < 64" "y mod 16 * 4 + z div 64 < 64"
    "z mod 64 < 64" "x mod 4 * 16 < 64" "y mod 16 * 4 < 64"
proof -
  have m: "x mod 4 < 4" "y mod 16 < 16" by simp_all
  have d: "x div 4 < 64" "y div 16 < 16" "z div 64 < 4"
    using assms by (simp_all add: less_mult_imp_div_less)
  from d show "x div 4 < 64" by simp
  from m d show "x mod 4 * 16 + y div 16 < 64" by linarith
  from m d show "y mod 16 * 4 + z div 64 < 64" by linarith
  show "z mod 64 < 64" by simp
  from m show "x mod 4 * 16 < 64" by linarith
  from m show "y mod 16 * 4 < 64" by linarith
qed

lemma sextet_join:
  fixes x y z :: nat
  assumes "x < 256" "y < 256" "z < 256"
  shows "x div 4 * 4 + (x mod 4 * 16 + y div 16) div 16 = x"
    "(x mod 4 * 16 + y div 16) mod 16 * 16 + (y mod 16 * 4 + z div 64) div 4 = y"
    "(y mod 16 * 4 + z div 64) mod 4 * 64 + z mod 64 = z"
    "x div 4 * 4 + (x mod 4 * 16) div 16 = x"
    "(x mod 4 * 16 + y div 16) mod 16 * 16 + (y mod 16 * 4) div 4 = y"
proof -
  have d: "y div 16 < 16" "z div 64 < 4"
    using assms by (simp_all add: less_mult_imp_div_less)
  have a3: "(y mod 16 * 4 + z div 64) div 4 = y mod 16" using d(2) by simp
  show "x div 4 * 4 + (x mod 4 * 16 + y div 16) div 16 = x" using d(1) by simp
  show "(x mod 4 * 16 + y div 16) mod 16 * 16 + (y mod 16 * 4 + z div 64) div 4 = y"
    using d(1) by (simp add: a3)
  show "(y mod 16 * 4 + z div 64) mod 4 * 64 + z mod 64 = z" using d(2) by simp
  show "x div 4 * 4 + (x mod 4 * 16) div 16 = x" by simp
  show "(x mod 4 * 16 + y div 16) mod 16 * 16 + (y mod 16 * 4) div 4 = y" using d(1) by simp
qed

lemma unat_byte_less: "unat (a :: byte) < 256"
  using unsigned_less [of a, where ?'a = nat] by simp

lemmas byte_parts = sextet_bounds [OF unat_byte_less unat_byte_less unat_byte_less]

lemmas byte_join = sextet_join [OF unat_byte_less unat_byte_less unat_byte_less]

lemma byte_join_word:
  fixes a b c :: byte
  shows "of_nat (unat a div 4 * 4 + (unat a mod 4 * 16 + unat b div 16) div 16) = a"
    "of_nat ((unat a mod 4 * 16 + unat b div 16) mod 16 * 16 + (unat b mod 16 * 4 + unat c div 64) div 4) = b"
    "of_nat ((unat b mod 16 * 4 + unat c div 64) mod 4 * 64 + unat c mod 64) = c"
    "of_nat (unat a div 4 * 4 + (unat a mod 4 * 16) div 16) = a"
    "of_nat ((unat a mod 4 * 16 + unat b div 16) mod 16 * 16 + (unat b mod 16 * 4) div 4) = b"
  by (simp_all only: byte_join) simp_all

lemma decode_quad_full:
  fixes a b c :: byte
  shows "decode_quad final (b64_char (unat a div 4)) (b64_char (unat a mod 4 * 16 + unat b div 16))
           (b64_char (unat b mod 16 * 4 + unat c div 64)) (b64_char (unat c mod 64)) = Inr [a, b, c]"
  unfolding decode_quad_def
  by (simp only: b64_value_char byte_parts b64_char_not_pad byte_join_word
      prod.case option.case simp_thms if_False)

lemma decode_quad_two:
  fixes a b :: byte
  shows "decode_quad True (b64_char (unat a div 4)) (b64_char (unat a mod 4 * 16 + unat b div 16))
           (b64_char (unat b mod 16 * 4)) CHR ''='' = Inr [a, b]"
  unfolding decode_quad_def
  by (simp only: b64_value_char byte_parts b64_char_not_pad byte_join_word
      prod.case option.case simp_thms if_False if_True)

lemma decode_quad_one:
  fixes a :: byte
  shows "decode_quad True (b64_char (unat a div 4)) (b64_char (unat a mod 4 * 16))
           CHR ''='' CHR ''='' = Inr [a]"
  unfolding decode_quad_def
  by (simp only: b64_value_char byte_parts byte_join_word
      prod.case option.case simp_thms if_True)

text \<open>The decoder on the concrete scenarios of section 8 of the specification.\<close>

lemma decode_empty: "decode [] = Inr []"
  by simp

lemma decode_scenario_A: "decode ''QQ=='' = Inr [0x41]"
  by (simp add: decode_quad_def b64_value_def)

lemma decode_scenario_malformed: "decode ''!!!'' = Inl DecodeError"
  by simp

lemma decode_rejects_foreign_character: "decode ''QUJ!'' = Inl DecodeError"
  by (simp add: decode_quad_def b64_value_def)

lemma decode_rejects_early_padding: "decode ''QQ==QUJD'' = Inl DecodeError"
  by (simp add: decode_quad_def b64_value_def)

section \<open>PCM conversion: frames and range\<close>

lemma int16_le_range: "- 32768 \<le> int16_le lo hi \<and> int16_le lo hi < 32768"
  using sint_ge [of "word_of_nat (unat lo + 256 * unat hi) :: 16 word"]
    sint_lt [of "word_of_nat (unat lo + 256 * unat hi) :: 16 word"]
  by (simp add: int16_le_def)

lemma length_pcm16_samples: "length (pcm16_samples raw) = length raw div 2"
  by (induction raw rule: pcm16_samples.induct) simp_all

lemma pcm16_samples_nth:
  "i < length raw div 2 \<Longrightarrow> pcm16_samples raw ! i = int16_le (raw ! (2 * i)) (raw ! (2 * i + 1))"
proof (induction raw arbitrary: i rule: pcm16_samples.induct)
  case (1 lo hi rest)
  then show ?case by (cases i) simp_all
qed simp_all

lemma sample_range:
  "- 1 \<le> real_of_int (int16_le lo hi) / 32768 \<and> real_of_int (int16_le lo hi) / 32768 < 1"
  using int16_le_range [of lo hi] by simp

lemma frame_index:
  fixes c f n k :: nat
  assumes "ch < c" "frame < n div (2 * c)"
  shows "frame * c + ch < n div 2"
proof -
  from assms(2) have "Suc frame \<le> n div (2 * c)" by simp
  then have "Suc frame * c \<le> n div (2 * c) * c" by (rule mult_le_mono1)
  also have "n div (2 * c) * c \<le> n div 2"
  proof -
    have "n div (2 * c) = n div 2 div c" by (simp add: div_mult2_eq)
    then show ?thesis by simp
  qed
  finally show ?thesis using assms(1) by simp
qed

lemma decodeAudioData_ok:
  assumes "1 \<le> channelCount" "0 < sampleRate"
  shows "decodeAudioData raw ctx sampleRate channelCount =
     Inr \<lparr>channelData =
            map (\<lambda>ch. map (\<lambda>frame. real_of_int (pcm16_samples raw ! (frame * nat channelCount + ch)) / 32768)
                          [0..<length raw div (2 * nat channelCount)])
                [0..<nat channelCount],
          buf_sampleRate = sampleRate\<rparr>"
  using assms by (simp add: decodeAudioData_def Let_def)

text \<open>The converter on the concrete scenarios of section 8 of the specification.\<close>

lemma decodeAudioData_scenario:
  "decodeAudioData [0x00, 0x80, 0xFF, 0x7F] ctx 24000 1 =
     Inr \<lparr>channelData = [[- 1, 32767 / 32768]], buf_sampleRate = 24000\<rparr>"
  by (simp add: decodeAudioData_def Let_def int16_le_def upt_rec)

lemma decodeAudioData_empty:
  "decodeAudioData [] ctx 24000 1 = Inr \<lparr>channelData = [[]], buf_sampleRate = 24000\<rparr>"
  by (simp add: decodeAudioData_def Let_def)

lemma decodeAudioData_rejects_parameters:
  "sampleRate \<le> 0 \<or> channelCount \<le> 0 \<Longrightarrow>
     decodeAudioData raw ctx sampleRate channelCount = Inl ConversionError"
  by (auto simp: decodeAudioData_def)

section \<open>The claims\<close>

text \<open>
  Claim C1. At every point in time there is at most one active sound-producing instance:
  in every state the event system can reach, at most one source node has been started and
  has not ended, and none while the controller is idle. Every press of the play button,
  whatever render its callback comes from, returns normally and leaves at most one active
  instance; whenever the press starts playback (the callback has seen the controller idle
  with a buffer), no instance is active before the call and exactly the new one is active
  after it; and a new run of \<open>handleSubmit\<close> with a non-blank URL has terminated the
  previous instance when it reaches its first await.
\<close>

theorem single_active_instance:
  "length (active_instances (app (run evs initial_world))) \<le> 1 \<and>
   (\<not> isPlaying (app (run evs initial_world)) \<longrightarrow>
      active_instances (app (run evs initial_world)) = []) \<and>
   (\<exists>s'. togglePlayback (rendered_isPlaying (run evs initial_world))
            (rendered_audioBuffer (run evs initial_world)) (app (run evs initial_world)) = Inr s' \<and>
         length (active_instances s') \<le> 1) \<and>
   (\<not> rendered_isPlaying (run evs initial_world) \<and>
    rendered_audioBuffer (run evs initial_world) \<noteq> None \<longrightarrow>
      active_instances (app (run evs initial_world)) = [] \<and>
      (\<exists>s'. togglePlayback (rendered_isPlaying (run evs initial_world))
               (rendered_audioBuffer (run evs initial_world)) (app (run evs initial_world)) = Inr s' \<and>
            active_instances s' = [length (nodes (app (run evs initial_world)))])) \<and>
   (trim (url (app (run evs initial_world))) \<noteq> [] \<longrightarrow>
      (\<exists>s'. handleSubmit_enter (app (run evs initial_world)) =
              Inr (s', Some (url (app (run evs initial_world)))) \<and>
            active_instances s' = []))"
proof -
  define w where "w = run evs initial_world"
  define s where "s = app w"
  have winv: "world_inv w" unfolding w_def by (rule world_inv_run)
  have inv: "playback_inv s" unfolding s_def by (rule world_inv_playback [OF winv])
  have stale: "audioSourceRef s = None" if "\<not> rendered_isPlaying w"
    using world_inv_seen_playing [OF winv] that unfolding s_def by blast
  have one: "length (active_instances s) \<le> 1" by (rule active_instances_le_one [OF inv])
  have idle: "active_instances s = []" if "\<not> isPlaying s"
  proof -
    from that playback_inv_playing [OF inv] have "audioSourceRef s = None" by simp
    then show ?thesis by (rule active_instances_idle [OF inv])
  qed
  have press: "\<exists>s'. togglePlayback (rendered_isPlaying w) (rendered_audioBuffer w) s = Inr s' \<and>
      length (active_instances s') \<le> 1"
  proof -
    from playback_inv_toggle [OF inv stale] obtain s'
      where "togglePlayback (rendered_isPlaying w) (rendered_audioBuffer w) s = Inr s'"
        "playback_inv s'" by blast
    with active_instances_le_one [of s'] show ?thesis by blast
  qed
  have start: "active_instances s = [] \<and>
      (\<exists>s'. togglePlayback (rendered_isPlaying w) (rendered_audioBuffer w) s = Inr s' \<and>
            active_instances s' = [length (nodes s)])"
    if seen: "\<not> rendered_isPlaying w" and buf: "rendered_audioBuffer w \<noteq> None"
  proof -
    from stale [OF seen] have ref: "audioSourceRef s = None" .
    have none: "active_instances s = []" by (rule active_instances_idle [OF inv ref])
    from buf obtain b where b: "rendered_audioBuffer w = Some b" by auto
    from world_inv_seen_buffer [OF winv buf] have "audioBuffer s \<noteq> None" by (simp add: s_def)
    from playback_inv_context [OF inv this] obtain ctx where ctx: "audioContextRef s = Some ctx"
      by auto
    note eq = togglePlayback_start [OF ctx, of b]
    have "active_instances
            ((if ctx_state ctx = Suspended then ctx_resume s else s)
             \<lparr>nodes := nodes s @ [new_node b],
              calls := calls (if ctx_state ctx = Suspended then ctx_resume s else s) @
                [CreateBufferSource (length (nodes s)), SetBuffer (length (nodes s)),
                 Connect (length (nodes s)), SetOnended (length (nodes s)) (Some EndedHandler),
                 NodeStart (length (nodes s)) 0],
              audioSourceRef := Some (length (nodes s)), isPlaying := True\<rparr>) = [length (nodes s)]"
      by (rule active_instances_started [OF none, where nd = "new_node b"])
         (simp_all add: new_node_def)
    with eq none seen b show ?thesis by simp
  qed
  have submit: "\<exists>s'. handleSubmit_enter s = Inr (s', Some (url s)) \<and> active_instances s' = []"
    if url: "trim (url s) \<noteq> []"
  proof -
    let ?s0 = "s\<lparr>isLoading := True, error := None, summary := [], audioBuffer := None\<rparr>"
    have "playback_inv ?s0" by (rule playback_inv_frame [OF inv]) simp_all
    from playback_inv_stop [OF this] obtain s'
      where s': "stopPlayback ?s0 = Inr s'" "playback_inv s'" "audioSourceRef s' = None" by blast
    from url s'(1) have "handleSubmit_enter s = Inr (s', Some (url s))"
      by (simp add: handleSubmit_enter_def)
    moreover have "active_instances s' = []" by (rule active_instances_idle [OF s'(2,3)])
    ultimately show ?thesis by blast
  qed
  from one idle press start submit show ?thesis unfolding s_def w_def by blast
qed

theorem single_active_instance_witness:
  "\<not> rendered_isPlaying (run demo_events initial_world) \<and>
   rendered_audioBuffer (run demo_events initial_world) \<noteq> None \<and>
   \<not> isPlaying (app (run demo_events initial_world)) \<and>
   trim (url (app (run demo_events initial_world))) \<noteq> [] \<and>
   active_instances (app (run demo_events initial_world)) = [] \<and>
   active_instances playing_state = [0] \<and>
   togglePlayback (rendered_isPlaying (run demo_events initial_world))
     (rendered_audioBuffer (run demo_events initial_world)) (app (run demo_events initial_world)) =
     Inr playing_state \<and>
   length (active_instances (app (run (demo_events @ [Toggle]) initial_world))) \<le> 1"
proof -
  have h1: "\<not> rendered_isPlaying (run demo_events initial_world)"
    by (simp add: run_demo_events)
  have h2: "rendered_audioBuffer (run demo_events initial_world) \<noteq> None"
    by (simp add: run_demo_events)
  have h3: "trim (url (app (run demo_events initial_world))) \<noteq> []"
    by (simp add: run_demo_events ready_state_def trim_demo)
  have h4: "\<not> isPlaying (app (run demo_events initial_world))"
    by (simp add: run_demo_events ready_state_def)
  have t: "togglePlayback (rendered_isPlaying (run demo_events initial_world))
     (rendered_audioBuffer (run demo_events initial_world)) (app (run demo_events initial_world)) =
     Inr playing_state"
    by (simp add: run_demo_events toggle_ready_state)
  have n: "length (nodes (app (run demo_events initial_world))) = 0"
    by (simp add: run_demo_events ready_state_def)
  note inst = single_active_instance [of demo_events]
  from inst h1 h2 have a: "active_instances (app (run demo_events initial_world)) = []" by blast
  from inst h1 h2 obtain s'
    where "togglePlayback (rendered_isPlaying (run demo_events initial_world))
       (rendered_audioBuffer (run demo_events initial_world)) (app (run demo_events initial_world)) =
       Inr s'"
      "active_instances s' = [length (nodes (app (run demo_events initial_world)))]" by blast
  with t n have b: "active_instances playing_state = [0]" by simp
  from single_active_instance [of "demo_events @ [Toggle]"]
  have c: "length (active_instances (app (run (demo_events @ [Toggle]) initial_world))) \<le> 1"
    by blast
  from h1 h2 h4 h3 a b t c show ?thesis by (intro conjI)
qed

text \<open>
  Claim C2. For every raw byte buffer and every \<open>channelCount >= 1\<close> (with a positive sample
  rate), \<open>decodeAudioData\<close> returns an audio buffer with \<open>channelCount\<close> channel arrays, each
  exactly \<open>floor(L / (2 * C))\<close> long, every value at least \<open>-1\<close> and below \<open>1\<close>; each
  value is the 16-bit little-endian signed integer at its interleave position divided by
  32768; and a buffer of length \<open>2 * C * k + r\<close> with \<open>r < 2 * C\<close> yields exactly \<open>k\<close> frames
  per channel, with no error.
\<close>

theorem decodeAudioData_frames_and_range:
  assumes "1 \<le> channelCount" "0 < sampleRate"
  shows "\<exists>buffer. decodeAudioData raw ctx sampleRate channelCount = Inr buffer \<and>
     length (channelData buffer) = nat channelCount \<and>
     (\<forall>channel \<in> set (channelData buffer).
         length channel = length raw div (2 * nat channelCount) \<and>
         (\<forall>x \<in> set channel. - 1 \<le> x \<and> x < 1)) \<and>
     (\<forall>ch < nat channelCount. \<forall>frame < length raw div (2 * nat channelCount).
         channelData buffer ! ch ! frame =
           real_of_int (int16_le (raw ! (2 * (frame * nat channelCount + ch)))
                                 (raw ! (2 * (frame * nat channelCount + ch) + 1))) / 32768) \<and>
     (\<forall>k r. length raw = 2 * nat channelCount * k + r \<and> r < 2 * nat channelCount \<longrightarrow>
         (\<forall>channel \<in> set (channelData buffer). length channel = k))"
proof -
  define c where "c = nat channelCount"
  define n where "n = length raw div (2 * c)"
  define buffer where "buffer =
     \<lparr>channelData =
        map (\<lambda>ch. map (\<lambda>frame. real_of_int (pcm16_samples raw ! (frame * c + ch)) / 32768) [0..<n])
            [0..<c],
      buf_sampleRate = sampleRate\<rparr>"
  have eq: "decodeAudioData raw ctx sampleRate channelCount = Inr buffer"
    unfolding buffer_def n_def c_def by (rule decodeAudioData_ok [OF assms])
  have len: "length (channelData buffer) = c" by (simp add: buffer_def)
  have sample: "channelData buffer ! ch ! frame =
      real_of_int (int16_le (raw ! (2 * (frame * c + ch))) (raw ! (2 * (frame * c + ch) + 1))) / 32768"
    if "ch < c" "frame < n" for ch frame
  proof -
    from that have "frame * c + ch < length raw div 2"
      unfolding n_def by (rule frame_index)
    then have "pcm16_samples raw ! (frame * c + ch) =
        int16_le (raw ! (2 * (frame * c + ch))) (raw ! (2 * (frame * c + ch) + 1))"
      by (rule pcm16_samples_nth)
    with that show ?thesis by (simp add: buffer_def)
  qed
  have chan: "length channel = n \<and> (\<forall>x \<in> set channel. - 1 \<le> x \<and> x < 1)"
    if "channel \<in> set (channelData buffer)" for channel
  proof -
    from that len obtain ch where ch: "ch < c" "channel = channelData buffer ! ch"
      by (auto simp: in_set_conv_nth)
    have l: "length channel = n" using ch by (simp add: buffer_def)
    have "- 1 \<le> x \<and> x < 1" if "x \<in> set channel" for x
    proof -
      from that l obtain frame where f: "frame < n" "x = channel ! frame"
        by (auto simp: in_set_conv_nth)
      from f(2) ch(2) sample [OF ch(1) f(1)]
      have "x = real_of_int (int16_le (raw ! (2 * (frame * c + ch)))
                                     (raw ! (2 * (frame * c + ch) + 1))) / 32768"
        by (simp only:)
      then show ?thesis by (simp only: sample_range simp_thms)
    qed
    with l show ?thesis by blast
  qed
  have trunc: "n = k" if "length raw = 2 * c * k + r" "r < 2 * c" for k r
    using that by (simp add: n_def)
  from eq len sample chan trunc show ?thesis unfolding c_def [symmetric] n_def [symmetric]
    by blast
qed


theorem decodeAudioData_frames_and_range_witness:
  "(1::int) \<le> 1 \<and> (0::int) < 24000 \<and>
   decodeAudioData [0, 128, 255, 127, 1] demo_context 24000 1 =
     Inr \<lparr>channelData = [[- 1, 32767 / 32768]], buf_sampleRate = 24000\<rparr> \<and>
   length [0, 128, 255, 127, 1 :: byte] = 2 * nat 1 * 2 + 1 \<and> (1::nat) < 2 * nat 1 \<and>
   length [- 1, 32767 / 32768 :: real] = 2 \<and>
   - 1 \<le> (32767 / 32768 :: real) \<and> (32767 / 32768 :: real) < 1"
proof -
  have h: "(1::int) \<le> 1" "(0::int) < 24000" by simp_all
  have e: "decodeAudioData [0, 128, 255, 127, 1] demo_context 24000 1 =
     Inr \<lparr>channelData = [[- 1, 32767 / 32768]], buf_sampleRate = 24000\<rparr>"
    by (simp add: decodeAudioData_def Let_def int16_le_def upt_rec)
  have l: "length [0, 128, 255, 127, 1 :: byte] = 2 * nat 1 * 2 + 1" "(1::nat) < 2 * nat 1"
    by simp_all
  from decodeAudioData_frames_and_range [OF h, of "[0, 128, 255, 127, 1]" demo_context] e
  have c: "\<forall>channel \<in> set [[- 1, 32767 / 32768 :: real]].
             length channel = length [0, 128, 255, 127, 1 :: byte] div (2 * nat 1) \<and>
             (\<forall>x \<in> set channel. - 1 \<le> x \<and> x < 1)"
    by auto
  then have r: "length [- 1, 32767 / 32768 :: real] = 2"
    "- 1 \<le> (32767 / 32768 :: real)" "(32767 / 32768 :: real) < 1"
    by simp_all
  from h e l r show ?thesis by (intro conjI)
qed

text \<open>
  Claim C3, as the code has it. \<open>toggle()\<close> behaves as \<open>stop()\<close> whenever the controller is
  playing, and the controller is then idle. Whenever the last render has seen the
  controller idle with a buffer, \<open>toggle()\<close> behaves as \<open>start()\<close>: the controller is idle,
  and the call creates one new source node bound to that buffer, connects it to the
  output, attaches the natural-end handler, starts it at 0, stores it in the ref and sets
  the state to playing. Between the natural end of a playback and the next render the
  callback still holds \<open>isPlaying\<close> true: there \<open>toggle()\<close> runs \<open>stop()\<close>, which finds no
  session and changes nothing. The claim as worded, that \<open>toggle()\<close> starts playback
  whenever the controller is idle and a buffer is available, fails in that interval.
\<close>

theorem toggle_follows_last_render:
  "(isPlaying (app (run evs initial_world)) \<longrightarrow>
      rendered_isPlaying (run evs initial_world) \<and>
      togglePlayback (rendered_isPlaying (run evs initial_world))
          (rendered_audioBuffer (run evs initial_world)) (app (run evs initial_world)) =
        stopPlayback (app (run evs initial_world)) \<and>
      (\<exists>s'. stopPlayback (app (run evs initial_world)) = Inr s' \<and>
            \<not> isPlaying s' \<and> audioSourceRef s' = None)) \<and>
   (\<not> rendered_isPlaying (run evs initial_world) \<and>
    rendered_audioBuffer (run evs initial_world) = Some buf \<longrightarrow>
      \<not> isPlaying (app (run evs initial_world)) \<and>
      audioBuffer (app (run evs initial_world)) \<noteq> None \<and>
      (\<exists>s'. togglePlayback (rendered_isPlaying (run evs initial_world))
               (rendered_audioBuffer (run evs initial_world)) (app (run evs initial_world)) = Inr s' \<and>
            nodes s' = nodes (app (run evs initial_world)) @
              [\<lparr>node_buffer = Some buf, connected = True, onended = Some EndedHandler,
                playState = Started, start_when = Some 0, ended_pending = False\<rparr>] \<and>
            audioSourceRef s' = Some (length (nodes (app (run evs initial_world)))) \<and>
            isPlaying s')) \<and>
   (rendered_isPlaying (run evs initial_world) \<and> \<not> isPlaying (app (run evs initial_world)) \<longrightarrow>
      togglePlayback (rendered_isPlaying (run evs initial_world))
          (rendered_audioBuffer (run evs initial_world)) (app (run evs initial_world)) =
        Inr (app (run evs initial_world)))"
proof -
  define w where "w = run evs initial_world"
  define s where "s = app w"
  have winv: "world_inv w" unfolding w_def by (rule world_inv_run)
  have inv: "playback_inv s" unfolding s_def by (rule world_inv_playback [OF winv])
  have stop: "rendered_isPlaying w \<and>
      togglePlayback (rendered_isPlaying w) (rendered_audioBuffer w) s = stopPlayback s \<and>
      (\<exists>s'. stopPlayback s = Inr s' \<and> \<not> isPlaying s' \<and> audioSourceRef s' = None)"
    if "isPlaying s"
  proof -
    from that playback_inv_playing [OF inv] have "audioSourceRef s \<noteq> None" by simp
    then have seen: "rendered_isPlaying w"
      unfolding s_def by (rule world_inv_seen_playing [OF winv])
    with playback_inv_stop [OF inv] show ?thesis by (auto simp: togglePlayback_stale)
  qed
  have start: "\<not> isPlaying s \<and> audioBuffer s \<noteq> None \<and>
      (\<exists>s'. togglePlayback (rendered_isPlaying w) (rendered_audioBuffer w) s = Inr s' \<and>
            nodes s' = nodes s @
              [\<lparr>node_buffer = Some buf, connected = True, onended = Some EndedHandler,
                playState = Started, start_when = Some 0, ended_pending = False\<rparr>] \<and>
            audioSourceRef s' = Some (length (nodes s)) \<and> isPlaying s')"
    if seen: "\<not> rendered_isPlaying w" and buf: "rendered_audioBuffer w = Some buf"
  proof -
    have ref: "audioSourceRef s = None"
      using world_inv_seen_playing [OF winv] seen unfolding s_def by blast
    with playback_inv_playing [OF inv] have idle: "\<not> isPlaying s" by simp
    from buf have "rendered_audioBuffer w \<noteq> None" by simp
    from world_inv_seen_buffer [OF winv this] have cur: "audioBuffer s \<noteq> None"
      by (simp add: s_def)
    from playback_inv_context [OF inv cur] obtain ctx where ctx: "audioContextRef s = Some ctx"
      by auto
    from idle cur seen buf show ?thesis
      by (simp add: togglePlayback_start [OF ctx] new_node_def)
  qed
  have stale: "togglePlayback (rendered_isPlaying w) (rendered_audioBuffer w) s = Inr s"
    if "rendered_isPlaying w" "\<not> isPlaying s"
  proof -
    from that(2) playback_inv_playing [OF inv] have "audioSourceRef s = None" by simp
    with that show ?thesis by (simp add: togglePlayback_stale stopPlayback_idle)
  qed
  from stop start stale show ?thesis unfolding s_def w_def by blast
qed

theorem toggle_follows_last_render_witness:
  "isPlaying (app (run (demo_events @ [Toggle]) initial_world)) \<and>
   togglePlayback (rendered_isPlaying (run (demo_events @ [Toggle]) initial_world))
       (rendered_audioBuffer (run (demo_events @ [Toggle]) initial_world))
       (app (run (demo_events @ [Toggle]) initial_world)) =
     stopPlayback (app (run (demo_events @ [Toggle]) initial_world)) \<and>
   \<not> rendered_isPlaying (run demo_events initial_world) \<and>
   rendered_audioBuffer (run demo_events initial_world) = Some demo_buffer \<and>
   togglePlayback (rendered_isPlaying (run demo_events initial_world))
       (rendered_audioBuffer (run demo_events initial_world)) (app (run demo_events initial_world)) =
     Inr playing_state \<and>
   nodes playing_state =
     [\<lparr>node_buffer = Some demo_buffer, connected = True, onended = Some EndedHandler,
       playState = Started, start_when = Some 0, ended_pending = False\<rparr>] \<and>
   audioSourceRef playing_state = Some 0 \<and> isPlaying playing_state \<and>
   rendered_isPlaying (run (demo_events @ [Toggle, SoundEnds 0, DispatchEnded 0]) initial_world) \<and>
   \<not> isPlaying (app (run (demo_events @ [Toggle, SoundEnds 0, DispatchEnded 0]) initial_world))"
proof -
  have p: "isPlaying (app (run (demo_events @ [Toggle]) initial_world))"
    by (simp add: run_demo_events_toggle playing_state_def)
  have i: "\<not> rendered_isPlaying (run demo_events initial_world)"
    by (simp add: run_demo_events)
  have b: "rendered_audioBuffer (run demo_events initial_world) = Some demo_buffer"
    by (simp add: run_demo_events)
  have t: "togglePlayback (rendered_isPlaying (run demo_events initial_world))
       (rendered_audioBuffer (run demo_events initial_world)) (app (run demo_events initial_world)) =
     Inr playing_state"
    by (simp add: run_demo_events toggle_ready_state)
  have n: "nodes (app (run demo_events initial_world)) = []"
    by (simp add: run_demo_events ready_state_def)
  have e: "rendered_isPlaying (run (demo_events @ [Toggle, SoundEnds 0, DispatchEnded 0]) initial_world)"
    "\<not> isPlaying (app (run (demo_events @ [Toggle, SoundEnds 0, DispatchEnded 0]) initial_world))"
    by (simp_all add: run_demo_events_ended ended_state_def)
  from toggle_follows_last_render [of "demo_events @ [Toggle]" demo_buffer] p
  have c1: "togglePlayback (rendered_isPlaying (run (demo_events @ [Toggle]) initial_world))
       (rendered_audioBuffer (run (demo_events @ [Toggle]) initial_world))
       (app (run (demo_events @ [Toggle]) initial_world)) =
     stopPlayback (app (run (demo_events @ [Toggle]) initial_world))" by blast
  from toggle_follows_last_render [of demo_events demo_buffer] i b obtain s'
    where "togglePlayback (rendered_isPlaying (run demo_events initial_world))
        (rendered_audioBuffer (run demo_events initial_world)) (app (run demo_events initial_world)) =
        Inr s'"
      "nodes s' = nodes (app (run demo_events initial_world)) @
              [\<lparr>node_buffer = Some demo_buffer, connected = True, onended = Some EndedHandler,
                playState = Started, start_when = Some 0, ended_pending = False\<rparr>]"
      "audioSourceRef s' = Some (length (nodes (app (run demo_events initial_world))))"
      "isPlaying s'" by blast
  with t n have c2: "nodes playing_state =
     [\<lparr>node_buffer = Some demo_buffer, connected = True, onended = Some EndedHandler,
       playState = Started, start_when = Some 0, ended_pending = False\<rparr>]"
    "audioSourceRef playing_state = Some 0" "isPlaying playing_state" by simp_all
  from p c1 i b t c2 e show ?thesis by (intro conjI)
qed

text \<open>
  After \<open>demo_events\<close>, a press of the play button, the end of the sound and the delivery
  of its \<open>ended\<close> event, the controller is idle (no session, \<open>isPlaying\<close> false) and its
  buffer is available, but the component has not rendered yet: a press of the play button
  starts nothing and leaves the state as it is.
\<close>

theorem toggle_after_natural_end_counterexample:
  "app (run (demo_events @ [Toggle, SoundEnds 0, DispatchEnded 0]) initial_world) = ended_state \<and>
   \<not> isPlaying ended_state \<and> audioSourceRef ended_state = None \<and>
   audioBuffer ended_state = Some demo_buffer \<and>
   active_instances ended_state = [] \<and>
   togglePlayback
       (rendered_isPlaying (run (demo_events @ [Toggle, SoundEnds 0, DispatchEnded 0]) initial_world))
       (rendered_audioBuffer (run (demo_events @ [Toggle, SoundEnds 0, DispatchEnded 0]) initial_world))
       ended_state =
     Inr ended_state \<and>
   app (run (demo_events @ [Toggle, SoundEnds 0, DispatchEnded 0, Toggle]) initial_world) =
     ended_state"
proof -
  have f: "\<not> isPlaying ended_state" "audioSourceRef ended_state = None"
    "audioBuffer ended_state = Some demo_buffer" "active_instances ended_state = []"
    by (simp_all add: ended_state_def playing_state_def ready_state_def active_instances_def
        new_node_def)
  have t: "togglePlayback True (Some demo_buffer) ended_state = Inr ended_state"
    using f(1,2) by (simp add: togglePlayback_stale stopPlayback_idle)
  have "run (demo_events @ [Toggle, SoundEnds 0, DispatchEnded 0, Toggle]) initial_world =
      step Toggle (run (demo_events @ [Toggle, SoundEnds 0, DispatchEnded 0]) initial_world)"
    by (simp add: run_def)
  then have r: "app (run (demo_events @ [Toggle, SoundEnds 0, DispatchEnded 0, Toggle]) initial_world) =
      ended_state"
    by (simp add: run_demo_events_ended step_def render_def t)
  from f t r show ?thesis by (simp add: run_demo_events_ended)
qed

text \<open>
  Claim C4, as the code has it. Whenever playback is started from idle and the device
  context reports a suspended state, the controller issues a resume request on the
  context before it creates and starts the new source; it does not wait for the request
  to complete: when \<open>togglePlayback\<close> returns, the source has been started and the request
  is still pending. The claim as worded, that the completion is awaited before playback
  begins, fails in the state \<open>ready_state\<close>.
\<close>

theorem resume_requested_before_start:
  assumes "\<not> isPlaying_seen" "audioBuffer_seen = Some buf" "audioContextRef s = Some ctx"
    and "ctx_state ctx = Suspended"
  shows "\<exists>s'. togglePlayback isPlaying_seen audioBuffer_seen s = Inr s' \<and>
           calls s' = calls s @
             [CtxResume, CreateBufferSource (length (nodes s)), SetBuffer (length (nodes s)),
              Connect (length (nodes s)), SetOnended (length (nodes s)) (Some EndedHandler),
              NodeStart (length (nodes s)) 0] \<and>
           audioContextRef s' = Some (ctx\<lparr>resume_pending := Suc (resume_pending ctx)\<rparr>)"
  using assms
  by (simp add: togglePlayback_start [OF assms(3)] ctx_resume_def log_call_def)

theorem resume_requested_before_start_witness:
  "\<not> rendered_isPlaying (run demo_events initial_world) \<and>
   rendered_audioBuffer (run demo_events initial_world) = Some demo_buffer \<and>
   audioContextRef ready_state = Some demo_context \<and> ctx_state demo_context = Suspended \<and>
   calls playing_state = calls ready_state @
     [CtxResume, CreateBufferSource 0, SetBuffer 0, Connect 0, SetOnended 0 (Some EndedHandler),
      NodeStart 0 0] \<and>
   audioContextRef playing_state = Some (demo_context\<lparr>resume_pending := Suc 0\<rparr>)"
proof -
  have h: "\<not> rendered_isPlaying (run demo_events initial_world)"
    "rendered_audioBuffer (run demo_events initial_world) = Some demo_buffer"
    "audioContextRef ready_state = Some demo_context" "ctx_state demo_context = Suspended"
    by (simp_all add: run_demo_events ready_state_def demo_context_def)
  have n: "length (nodes ready_state) = 0" "resume_pending demo_context = 0"
    by (simp_all add: ready_state_def demo_context_def)
  have t: "togglePlayback (rendered_isPlaying (run demo_events initial_world))
      (rendered_audioBuffer (run demo_events initial_world)) ready_state = Inr playing_state"
    by (simp add: run_demo_events toggle_ready_state)
  from resume_requested_before_start [OF h] t n
  have "calls playing_state = calls ready_state @
     [CtxResume, CreateBufferSource 0, SetBuffer 0, Connect 0, SetOnended 0 (Some EndedHandler),
      NodeStart 0 0]"
    "audioContextRef playing_state = Some (demo_context\<lparr>resume_pending := Suc 0\<rparr>)"
    by auto
  with h show ?thesis by (intro conjI)
qed

text \<open>
  The state \<open>ready_state\<close>, reached and rendered by \<open>demo_events\<close>, is idle with a suspended
  context. After \<open>togglePlayback\<close> the node has been started while the context still reports
  \<open>suspended\<close> and one resume request is pending: the completion was not awaited.
\<close>

theorem resume_not_awaited_counterexample:
  "app (run demo_events initial_world) = ready_state \<and>
   rendered_isPlaying (run demo_events initial_world) = False \<and>
   rendered_audioBuffer (run demo_events initial_world) = Some demo_buffer \<and>
   \<not> isPlaying ready_state \<and>
   map_option ctx_state (audioContextRef ready_state) = Some Suspended \<and>
   togglePlayback False (Some demo_buffer) ready_state = Inr playing_state \<and>
   map playState (nodes playing_state) = [Started] \<and>
   map_option ctx_state (audioContextRef playing_state) = Some Suspended \<and>
   map_option resume_pending (audioContextRef playing_state) = Some 1"
  by (simp add: run_demo_events toggle_ready_state)
     (simp add: ready_state_def playing_state_def demo_context_def new_node_def)

text \<open>
  Claim C5. \<open>stop()\<close> invoked while playing first detaches the natural-end handler and
  then halts the node, releases the session and leaves the controller idle; the node has
  then been stopped exactly once, and no node is ever stopped twice. \<open>stop()\<close> invoked
  while idle changes nothing, also right after the natural-end handler has run. The
  \<open>ended\<close> event of a node that is not the current session changes neither the playing
  flag nor the session.
\<close>

theorem stop_detaches_then_halts:
  "(isPlaying (app (run evs initial_world)) \<longrightarrow>
      (\<exists>n s'. audioSourceRef (app (run evs initial_world)) = Some n \<and>
         stopPlayback (app (run evs initial_world)) = Inr s' \<and>
         calls s' = calls (app (run evs initial_world)) @ [SetOnended n None, NodeStop n] \<and>
         onended (nodes s' ! n) = None \<and> playState (nodes s' ! n) = Finished \<and>
         audioSourceRef s' = None \<and> \<not> isPlaying s' \<and>
         count_list (calls s') (NodeStop n) = 1)) \<and>
   (\<not> isPlaying (app (run evs initial_world)) \<longrightarrow>
      stopPlayback (app (run evs initial_world)) = Inr (app (run evs initial_world))) \<and>
   stopPlayback (run_handler EndedHandler (app (run evs initial_world))) =
     Inr (run_handler EndedHandler (app (run evs initial_world))) \<and>
   (\<forall>n. count_list (calls (app (run evs initial_world))) (NodeStop n) \<le> 1) \<and>
   (\<forall>n. audioSourceRef (app (run evs initial_world)) \<noteq> Some n \<longrightarrow>
      isPlaying (dispatch_ended n (app (run evs initial_world))) = isPlaying (app (run evs initial_world)) \<and>
      audioSourceRef (dispatch_ended n (app (run evs initial_world))) =
        audioSourceRef (app (run evs initial_world)))"
proof -
  define s where "s = app (run evs initial_world)"
  have inv: "playback_inv s"
    unfolding s_def by (rule world_inv_playback [OF world_inv_run])
  have cinv: "calls_inv s"
    unfolding s_def by (rule world_inv_calls [OF world_inv_run])
  have playing: "\<exists>n s'. audioSourceRef s = Some n \<and> stopPlayback s = Inr s' \<and>
         calls s' = calls s @ [SetOnended n None, NodeStop n] \<and>
         onended (nodes s' ! n) = None \<and> playState (nodes s' ! n) = Finished \<and>
         audioSourceRef s' = None \<and> \<not> isPlaying s' \<and>
         count_list (calls s') (NodeStop n) = 1"
    if "isPlaying s"
  proof -
    from that playback_inv_playing [OF inv] obtain n where ref: "audioSourceRef s = Some n"
      by auto
    from playback_inv_ref [OF inv ref]
    have n: "n < length (nodes s)" "playState (nodes s ! n) \<noteq> Unscheduled" by simp_all
    from calls_inv_stopped [OF cinv, of n] ref have "NodeStop n \<notin> set (calls s)" by blast
    then have fresh: "count_list (calls s) (NodeStop n) = 0" by (simp add: count_list_0_iff)
    from n(2) have fin: "playState (nodes s ! n) \<noteq> Started \<Longrightarrow> playState (nodes s ! n) = Finished"
      by (cases "playState (nodes s ! n)") simp_all
    show ?thesis
      using ref n(1) fresh fin
      by (simp add: stopPlayback_playing [OF ref n])
  qed
  have idle: "stopPlayback s = Inr s" if "\<not> isPlaying s"
  proof -
    from that playback_inv_playing [OF inv] have "audioSourceRef s = None" by simp
    with that show ?thesis by (simp add: stopPlayback_idle)
  qed
  have once: "\<forall>n. count_list (calls s) (NodeStop n) \<le> 1"
    using calls_inv_once [OF cinv] by blast
  have stale: "\<forall>n. audioSourceRef s \<noteq> Some n \<longrightarrow>
      isPlaying (dispatch_ended n s) = isPlaying s \<and>
      audioSourceRef (dispatch_ended n s) = audioSourceRef s"
    using dispatch_ended_stale [OF inv] by blast
  from playing idle once stale stopPlayback_after_handler [of s]
  show ?thesis unfolding s_def by blast
qed

theorem stop_detaches_then_halts_witness:
  "isPlaying (app (run (demo_events @ [Toggle]) initial_world)) \<and>
   \<not> isPlaying (app (run demo_events initial_world)) \<and>
   audioSourceRef stopped_state \<noteq> Some 0 \<and>
   stopPlayback playing_state = Inr stopped_state \<and>
   calls stopped_state = calls playing_state @ [SetOnended 0 None, NodeStop 0] \<and>
   count_list (calls stopped_state) (NodeStop 0) = 1 \<and>
   stopPlayback ready_state = Inr ready_state \<and>
   isPlaying (dispatch_ended 0 stopped_state) = isPlaying stopped_state"
proof -
  have p: "app (run (demo_events @ [Toggle]) initial_world) = playing_state"
    by (simp add: run_demo_events_toggle)
  have r: "app (run demo_events initial_world) = ready_state"
    by (simp add: run_demo_events)
  have q: "app (run (demo_events @ [Toggle, Toggle]) initial_world) = stopped_state"
    by (simp add: run_demo_events_stopped)
  have h1: "isPlaying playing_state" by (simp add: playing_state_def)
  have h2: "\<not> isPlaying ready_state" by (simp add: ready_state_def)
  have h3: "audioSourceRef stopped_state \<noteq> Some 0" by (simp add: stopped_state_def)
  have ref: "audioSourceRef playing_state = Some 0" by (simp add: playing_state_def)
  from stop_detaches_then_halts [of "demo_events @ [Toggle]"] h1 ref stop_playing_state
  have c1: "calls stopped_state = calls playing_state @ [SetOnended 0 None, NodeStop 0]"
    "count_list (calls stopped_state) (NodeStop 0) = 1"
    unfolding p by auto
  from stop_detaches_then_halts [of demo_events] h2
  have c2: "stopPlayback ready_state = Inr ready_state" unfolding r by blast
  from stop_detaches_then_halts [of "demo_events @ [Toggle, Toggle]"] h3
  have c3: "isPlaying (dispatch_ended 0 stopped_state) = isPlaying stopped_state"
    unfolding q by blast
  from h1 h2 h3 stop_playing_state c1 c2 c3 show ?thesis unfolding p r by (intro conjI)
qed


text \<open>
  Claim C6, as the code has it. Starting playback with no buffer available raises no
  error: \<open>togglePlayback\<close> invoked with a callback that has seen the controller idle and no
  buffer returns normally and leaves the whole state, the user-visible error message
  included, as it was; and in every reachable state that is idle and has no buffer, a press
  of the play button does so whatever render its callback comes from. The claim as
  worded, that it fails with a \<open>PlaybackError\<close>, fails in the initial state.
\<close>

theorem toggle_without_buffer_does_nothing:
  "(\<not> isPlaying_seen \<and> audioBuffer_seen = None \<longrightarrow>
      togglePlayback isPlaying_seen audioBuffer_seen s = Inr s) \<and>
   (\<not> isPlaying (app (run evs initial_world)) \<and> audioBuffer (app (run evs initial_world)) = None \<longrightarrow>
      togglePlayback (rendered_isPlaying (run evs initial_world))
          (rendered_audioBuffer (run evs initial_world)) (app (run evs initial_world)) =
        Inr (app (run evs initial_world)))"
proof -
  define w where "w = run evs initial_world"
  have winv: "world_inv w" unfolding w_def by (rule world_inv_run)
  note inv = world_inv_playback [OF winv]
  have direct: "togglePlayback isPlaying_seen audioBuffer_seen s = Inr s"
    if "\<not> isPlaying_seen" "audioBuffer_seen = None"
    using that by (simp add: togglePlayback_nothing)
  have reached: "togglePlayback (rendered_isPlaying w) (rendered_audioBuffer w) (app w) = Inr (app w)"
    if idle: "\<not> isPlaying (app w)" and none: "audioBuffer (app w) = None"
  proof (cases "rendered_isPlaying w")
    case True
    from idle playback_inv_playing [OF inv] have "audioSourceRef (app w) = None" by simp
    with True idle show ?thesis by (simp add: togglePlayback_stale stopPlayback_idle)
  next
    case False
    have "rendered_audioBuffer w = None"
    proof (rule ccontr)
      assume "rendered_audioBuffer w \<noteq> None"
      from world_inv_seen_buffer [OF winv this] none show False by simp
    qed
    with False show ?thesis by (simp add: togglePlayback_nothing)
  qed
  from direct reached show ?thesis unfolding w_def by blast
qed

theorem toggle_without_buffer_does_nothing_witness:
  "\<not> False \<and> (None :: audio_buffer option) = None \<and>
   togglePlayback False None failed_state = Inr failed_state \<and>
   \<not> isPlaying (app (run [TypeUrl ''http://a''] initial_world)) \<and>
   audioBuffer (app (run [TypeUrl ''http://a''] initial_world)) = None \<and>
   togglePlayback (rendered_isPlaying (run [TypeUrl ''http://a''] initial_world))
       (rendered_audioBuffer (run [TypeUrl ''http://a''] initial_world))
       (app (run [TypeUrl ''http://a''] initial_world)) =
     Inr (app (run [TypeUrl ''http://a''] initial_world))"
proof -
  have h: "\<not> isPlaying (app (run [TypeUrl ''http://a''] initial_world))"
    "audioBuffer (app (run [TypeUrl ''http://a''] initial_world)) = None"
    by (simp_all add: run_def step_def render_def initial_world_def initial_state_def)
  from toggle_without_buffer_does_nothing [of False None failed_state "[TypeUrl ''http://a'']"]
  have c1: "togglePlayback False None failed_state = Inr failed_state" by blast
  from toggle_without_buffer_does_nothing [of False None failed_state "[TypeUrl ''http://a'']"] h
  have c2: "togglePlayback (rendered_isPlaying (run [TypeUrl ''http://a''] initial_world))
       (rendered_audioBuffer (run [TypeUrl ''http://a''] initial_world))
       (app (run [TypeUrl ''http://a''] initial_world)) =
     Inr (app (run [TypeUrl ''http://a''] initial_world))" by blast
  from h c1 c2 show ?thesis by simp
qed

text \<open>
  In the initial state, idle, without a buffer and as rendered, \<open>togglePlayback\<close> returns
  normally with the state unchanged and no error message: it does not fail.
\<close>

theorem toggle_without_buffer_counterexample:
  "app initial_world = initial_state \<and>
   \<not> rendered_isPlaying initial_world \<and> rendered_audioBuffer initial_world = None \<and>
   \<not> isPlaying initial_state \<and> audioBuffer initial_state = None \<and>
   togglePlayback False None initial_state = Inr initial_state \<and> error initial_state = None"
  by (simp add: togglePlayback_def initial_state_def initial_world_def)

text \<open>
  Claim C7. A run of \<open>handleSubmit\<close> with a non-blank URL, from any reachable state and
  with any behaviour of the collaborators, returns without an uncaught exception and
  leaves the controller idle, with no active instance and not loading. Either every
  stage succeeded (summary, speech, byte decoding, conversion) and the new buffer is
  stored with no error message; or a stage failed, and then no buffer is stored (the
  previous one is discarded) and an error message is shown. In both cases a further run
  is accepted.
\<close>

theorem failure_leaves_idle:
  assumes "trim (url (app (run evs initial_world))) \<noteq> []"
  shows "\<exists>s'. handleSubmit env (app (run evs initial_world)) = Inr s' \<and>
           \<not> isPlaying s' \<and> audioSourceRef s' = None \<and> active_instances s' = [] \<and>
           \<not> isLoading s' \<and>
           ((\<exists>summaryText audioB64 decodedBytes ctx buffer.
               summarizeArticleFromUrl (generateContent env) (url (app (run evs initial_world))) =
                 Inr summaryText \<and>
               generateSpeechFromText (generateContent env) summaryText = Inr (Some audioB64) \<and>
               utils_decode env audioB64 = Inr decodedBytes \<and>
               audioContextRef s' = Some ctx \<and>
               utils_decodeAudioData env decodedBytes ctx 24000 1 = Inr buffer \<and>
               audioBuffer s' = Some buffer \<and> error s' = None)
            \<or> (audioBuffer s' = None \<and> error s' \<noteq> None)) \<and>
           (\<forall>env'. \<exists>s''. handleSubmit env' s' = Inr s'')"
proof -
  define s where "s = app (run evs initial_world)"
  have inv: "playback_inv s"
    unfolding s_def by (rule world_inv_playback [OF world_inv_run])
  from assms have url: "trim (url s) \<noteq> []" by (simp add: s_def)
  from handleSubmit_outcome [OF inv url, of env] obtain s'
    where s': "handleSubmit env s = Inr s'" "playback_inv s'" "\<not> isPlaying s'"
      "audioSourceRef s' = None" "\<not> isLoading s'" "url s' = url s"
      and out: "(\<exists>summaryText audioB64 decodedBytes ctx buffer.
               summarizeArticleFromUrl (generateContent env) (url s) = Inr summaryText \<and>
               generateSpeechFromText (generateContent env) summaryText = Inr (Some audioB64) \<and>
               utils_decode env audioB64 = Inr decodedBytes \<and>
               audioContextRef s' = Some ctx \<and>
               utils_decodeAudioData env decodedBytes ctx 24000 1 = Inr buffer \<and>
               audioBuffer s' = Some buffer \<and> error s' = None)
            \<or> (audioBuffer s' = None \<and> error s' \<noteq> None)"
    by blast
  have act: "active_instances s' = []" by (rule active_instances_idle [OF s'(2,4)])
  from url s'(6) have url': "trim (url s') \<noteq> []" by simp
  have again: "\<forall>env'. \<exists>s''. handleSubmit env' s' = Inr s''"
    using handleSubmit_outcome [OF s'(2) url'] by blast
  from s'(1,3,4,5) act out again show ?thesis unfolding s_def by blast
qed

theorem failure_leaves_idle_witness:
  "trim (url (app (run (demo_events @ [Toggle]) initial_world))) \<noteq> [] \<and>
   handleSubmit (demo_env None) (app (run (demo_events @ [Toggle]) initial_world)) = Inr failed_state \<and>
   isPlaying (app (run (demo_events @ [Toggle]) initial_world)) \<and>
   audioBuffer (app (run (demo_events @ [Toggle]) initial_world)) = Some demo_buffer \<and>
   \<not> isPlaying failed_state \<and> audioSourceRef failed_state = None \<and>
   active_instances failed_state = [] \<and> \<not> isLoading failed_state \<and>
   audioBuffer failed_state = None \<and> error failed_state = Some ''Failed to generate audio.''"
proof -
  have p: "app (run (demo_events @ [Toggle]) initial_world) = playing_state"
    by (simp add: run_demo_events_toggle)
  have h: "trim (url (app (run (demo_events @ [Toggle]) initial_world))) \<noteq> []"
    by (simp add: p url_playing_state trim_demo)
  have before: "isPlaying playing_state" "audioBuffer playing_state = Some demo_buffer"
    by (simp_all add: playing_state_def ready_state_def)
  have e: "error failed_state = Some ''Failed to generate audio.''"
    by (simp add: failed_state_def)
  from failure_leaves_idle [OF h, of "demo_env None"] handleSubmit_absent_audio
  have "\<not> isPlaying failed_state" "audioSourceRef failed_state = None"
    "active_instances failed_state = []" "\<not> isLoading failed_state"
    "(\<exists>summaryText audioB64 decodedBytes ctx buffer.
               summarizeArticleFromUrl (generateContent (demo_env None)) (url playing_state) =
                 Inr summaryText \<and>
               generateSpeechFromText (generateContent (demo_env None)) summaryText = Inr (Some audioB64) \<and>
               utils_decode (demo_env None) audioB64 = Inr decodedBytes \<and>
               audioContextRef failed_state = Some ctx \<and>
               utils_decodeAudioData (demo_env None) decodedBytes ctx 24000 1 = Inr buffer \<and>
               audioBuffer failed_state = Some buffer \<and> error failed_state = None)
            \<or> (audioBuffer failed_state = None \<and> error failed_state \<noteq> None)"
    unfolding p by auto
  with e have c: "\<not> isPlaying failed_state" "audioSourceRef failed_state = None"
    "active_instances failed_state = []" "\<not> isLoading failed_state"
    "audioBuffer failed_state = None" by auto
  from h handleSubmit_absent_audio before c e show ?thesis unfolding p by (intro conjI)
qed


text \<open>
  Claim C8. When the text-to-speech collaborator returns \<open>null\<close>, the run of
  \<open>handleSubmit\<close> ends with the message \<open>Failed to generate audio.\<close>, stores no buffer, and
  calls neither \<open>decode\<close> nor \<open>decodeAudioData\<close>. The message is a distinct one: from the
  same state, every run whose summary request fails ends with the message
  \<open>Failed to get summary from the article URL.\<close>, and every run whose speech request fails
  ends with \<open>Failed to convert summary to audio.\<close>, both different from the message shown
  for the absent payload.
\<close>

theorem absent_audio_is_not_decoded:
  assumes "trim (url (app (run evs initial_world))) \<noteq> []"
    and "summarizeArticleFromUrl (generateContent env) (url (app (run evs initial_world))) =
           Inr summaryText"
    and "generateSpeechFromText (generateContent env) summaryText = Inr None"
  shows "\<exists>s' cs. handleSubmit env (app (run evs initial_world)) = Inr s' \<and>
           error s' = Some ''Failed to generate audio.'' \<and>
           audioBuffer s' = None \<and>
           calls s' = calls (app (run evs initial_world)) @ cs \<and>
           (\<forall>b. CallDecode b \<notin> set cs) \<and> (\<forall>raw. CallDecodeAudioData raw \<notin> set cs) \<and>
           (\<forall>env2 e.
              summarizeArticleFromUrl (generateContent env2) (url (app (run evs initial_world))) =
                Inl e \<longrightarrow>
              (\<exists>s2. handleSubmit env2 (app (run evs initial_world)) = Inr s2 \<and>
                    error s2 = Some ''Failed to get summary from the article URL.'' \<and>
                    error s2 \<noteq> error s')) \<and>
           (\<forall>env2 t e.
              summarizeArticleFromUrl (generateContent env2) (url (app (run evs initial_world))) =
                Inr t \<and>
              generateSpeechFromText (generateContent env2) t = Inl e \<longrightarrow>
              (\<exists>s2. handleSubmit env2 (app (run evs initial_world)) = Inr s2 \<and>
                    error s2 = Some ''Failed to convert summary to audio.'' \<and>
                    error s2 \<noteq> error s'))"
proof -
  define s where "s = app (run evs initial_world)"
  have inv: "playback_inv s"
    unfolding s_def by (rule world_inv_playback [OF world_inv_run])
  from assms(1) have url: "trim (url s) \<noteq> []" by (simp add: s_def)
  let ?s0 = "s\<lparr>isLoading := True, error := None, summary := [], audioBuffer := None\<rparr>"
  have inv0: "playback_inv ?s0" by (rule playback_inv_frame [OF inv]) simp_all
  from playback_inv_stop [OF inv0] obtain s1
    where s1: "stopPlayback ?s0 = Inr s1" "audioBuffer s1 = None" by auto
  from stopPlayback_calls [OF s1(1)] obtain cs
    where cs: "calls s1 = calls s @ cs" "\<forall>b. CallDecode b \<notin> set cs"
      "\<forall>raw. CallDecodeAudioData raw \<notin> set cs" by auto
  from url s1(1) have enter: "handleSubmit_enter s = Inr (s1, Some (url s))"
    by (simp add: handleSubmit_enter_def)
  define s' where
    "s' = handleSubmit_catch (Error ''Failed to generate audio.'') (s1\<lparr>summary := summaryText\<rparr>)"
  have run: "handleSubmit env s = Inr s'"
    using assms(2,3)
    by (simp add: handleSubmit_def enter handleSubmit_afterSummary_def handleSubmit_afterSpeech_def
        s_def [symmetric] s'_def)
  have msg: "error s' = Some ''Failed to generate audio.''"
    by (simp add: s'_def handleSubmit_catch_def error_message_def)
  have buf: "audioBuffer s' = None" using s1(2) by (simp add: s'_def handleSubmit_catch_def)
  have log: "calls s' = calls s @ cs" using cs(1) by (simp add: s'_def handleSubmit_catch_def)
  have summary_fails: "\<exists>s2. handleSubmit env2 s = Inr s2 \<and>
      error s2 = Some ''Failed to get summary from the article URL.'' \<and> error s2 \<noteq> error s'"
    if "summarizeArticleFromUrl (generateContent env2) (url s) = Inl e" for env2 e
    using handleSubmit_summary_failure [OF inv url that] msg by auto
  have speech_fails: "\<exists>s2. handleSubmit env2 s = Inr s2 \<and>
      error s2 = Some ''Failed to convert summary to audio.'' \<and> error s2 \<noteq> error s'"
    if "summarizeArticleFromUrl (generateContent env2) (url s) = Inr t"
      "generateSpeechFromText (generateContent env2) t = Inl e" for env2 t e
    using handleSubmit_speech_failure [OF inv url that] msg by auto
  from run msg buf log cs(2,3) summary_fails speech_fails
  show ?thesis unfolding s_def [symmetric] by blast
qed

theorem absent_audio_is_not_decoded_witness:
  "trim (url (app (run (demo_events @ [Toggle]) initial_world))) \<noteq> [] \<and>
   summarizeArticleFromUrl (generateContent (demo_env None))
       (url (app (run (demo_events @ [Toggle]) initial_world))) = Inr ''News.'' \<and>
   generateSpeechFromText (generateContent (demo_env None)) ''News.'' = Inr None \<and>
   handleSubmit (demo_env None) (app (run (demo_events @ [Toggle]) initial_world)) = Inr failed_state \<and>
   error failed_state = Some ''Failed to generate audio.'' \<and>
   calls failed_state = calls (app (run (demo_events @ [Toggle]) initial_world)) @
     [SetOnended 0 None, NodeStop 0] \<and>
   summarizeArticleFromUrl (generateContent demo_env_no_summary)
       (url (app (run (demo_events @ [Toggle]) initial_world))) =
     Inl (Error ''Failed to get summary from the article URL.'') \<and>
   map_sum id error (handleSubmit demo_env_no_summary (app (run (demo_events @ [Toggle]) initial_world))) =
     Inr (Some ''Failed to get summary from the article URL.'') \<and>
   summarizeArticleFromUrl (generateContent demo_env_no_speech)
       (url (app (run (demo_events @ [Toggle]) initial_world))) = Inr ''News.'' \<and>
   generateSpeechFromText (generateContent demo_env_no_speech) ''News.'' =
     Inl (Error ''Failed to convert summary to audio.'') \<and>
   map_sum id error (handleSubmit demo_env_no_speech (app (run (demo_events @ [Toggle]) initial_world))) =
     Inr (Some ''Failed to convert summary to audio.'')"
proof -
  have p: "app (run (demo_events @ [Toggle]) initial_world) = playing_state"
    by (simp add: run_demo_events_toggle)
  have h1: "trim (url (app (run (demo_events @ [Toggle]) initial_world))) \<noteq> []"
    by (simp add: p url_playing_state trim_demo)
  have h2: "summarizeArticleFromUrl (generateContent (demo_env None))
       (url (app (run (demo_events @ [Toggle]) initial_world))) = Inr ''News.''"
    by (rule summarize_demo)
  have h3: "generateSpeechFromText (generateContent (demo_env None)) ''News.'' = Inr None"
    by (rule speech_demo_absent)
  have g1: "summarizeArticleFromUrl (generateContent demo_env_no_summary)
       (url (app (run (demo_events @ [Toggle]) initial_world))) =
     Inl (Error ''Failed to get summary from the article URL.'')"
    by (rule summarize_no_summary)
  have g2: "summarizeArticleFromUrl (generateContent demo_env_no_speech)
       (url (app (run (demo_events @ [Toggle]) initial_world))) = Inr ''News.''"
    by (rule summarize_no_speech)
  have g3: "generateSpeechFromText (generateContent demo_env_no_speech) ''News.'' =
     Inl (Error ''Failed to convert summary to audio.'')"
    by (rule speech_no_speech)
  have c: "calls failed_state = calls playing_state @ [SetOnended 0 None, NodeStop 0]"
    by (simp add: failed_state_def stopped_state_def)
  from absent_audio_is_not_decoded [OF h1 h2 h3] obtain s'
    where s': "handleSubmit (demo_env None) (app (run (demo_events @ [Toggle]) initial_world)) = Inr s'"
      "error s' = Some ''Failed to generate audio.''"
      and a: "\<forall>env2 e.
              summarizeArticleFromUrl (generateContent env2)
                  (url (app (run (demo_events @ [Toggle]) initial_world))) = Inl e \<longrightarrow>
              (\<exists>s2. handleSubmit env2 (app (run (demo_events @ [Toggle]) initial_world)) = Inr s2 \<and>
                    error s2 = Some ''Failed to get summary from the article URL.'' \<and>
                    error s2 \<noteq> error s')"
      and b: "\<forall>env2 t e.
              summarizeArticleFromUrl (generateContent env2)
                  (url (app (run (demo_events @ [Toggle]) initial_world))) = Inr t \<and>
              generateSpeechFromText (generateContent env2) t = Inl e \<longrightarrow>
              (\<exists>s2. handleSubmit env2 (app (run (demo_events @ [Toggle]) initial_world)) = Inr s2 \<and>
                    error s2 = Some ''Failed to convert summary to audio.'' \<and>
                    error s2 \<noteq> error s')"
    by blast
  from s' handleSubmit_absent_audio have e: "error failed_state = Some ''Failed to generate audio.''"
    unfolding p by simp
  from a g1 obtain s2
    where "handleSubmit demo_env_no_summary (app (run (demo_events @ [Toggle]) initial_world)) = Inr s2"
      "error s2 = Some ''Failed to get summary from the article URL.''" by blast
  then have m1: "map_sum id error
      (handleSubmit demo_env_no_summary (app (run (demo_events @ [Toggle]) initial_world))) =
     Inr (Some ''Failed to get summary from the article URL.'')" by simp
  from b g2 g3 obtain s3
    where "handleSubmit demo_env_no_speech (app (run (demo_events @ [Toggle]) initial_world)) = Inr s3"
      "error s3 = Some ''Failed to convert summary to audio.''" by blast
  then have m2: "map_sum id error
      (handleSubmit demo_env_no_speech (app (run (demo_events @ [Toggle]) initial_world))) =
     Inr (Some ''Failed to convert summary to audio.'')" by simp
  from h1 h2 h3 handleSubmit_absent_audio e c g1 m1 g2 g3 m2 show ?thesis
    unfolding p by (intro conjI)
qed


text \<open>
  Claim C9. For any raw byte buffer \<open>B\<close> of even length, \<open>decode(base64Encode(B)) = B\<close>:
  decoding reconstructs the encoded bytes exactly. Both functions are pure.
\<close>

theorem decode_inverts_base64Encode:
  assumes "even (length B)"
  shows "decode (base64Encode B) = Inr B"
proof -
  have "decode (base64Encode bs) = Inr bs" for bs
  proof (induction bs rule: base64Encode.induct)
    case 1
    show ?case by simp
  next
    case (2 a)
    show ?case by (simp add: decode_quad_one)
  next
    case (3 a b)
    show ?case by (simp add: decode_quad_two)
  next
    case (4 a b c rest)
    then show ?case by (simp add: decode_quad_full)
  qed
  then show ?thesis .
qed

theorem decode_inverts_base64Encode_witness:
  "even (length [0, 128, 255, 127 :: byte]) \<and>
   base64Encode [0, 128, 255, 127] = ''AID/fw=='' \<and>
   decode ''AID/fw=='' = Inr [0, 128, 255, 127]"
proof -
  have h: "even (length [0, 128, 255, 127 :: byte])" by simp
  have e: "base64Encode [0, 128, 255, 127] = ''AID/fw==''"
    by code_simp
  have d: "decode ''AID/fw=='' = Inr [0, 128, 255, 127]"
    using decode_inverts_base64Encode [OF h] unfolding e .
  from h e d show ?thesis by (intro conjI)
qed

text \<open>
  Claim C10. \<open>generateSpeechFromText\<close> returns \<open>null\<close> when the response carries no audio
  payload and also when the payload is the empty string; lines 62 to 65 of
  \<open>handleSubmit\<close> then end the run with \<open>Failed to generate audio.\<close>, without a call of
  \<open>decode\<close> and without storing a buffer.
\<close>

theorem empty_payload_reported_as_absence:
  assumes "generateContent env (SpeechRequest ''gemini-2.5-flash-preview-tts''
             (''Say in a clear and engaging news-reader voice: '' @ txt) ''Kore'') = Inr response"
    and "inline_audio response = None \<or> inline_audio response = Some []"
  shows "generateSpeechFromText (generateContent env) txt = Inr None \<and>
         snd (handleSubmit_afterSpeech env (generateSpeechFromText (generateContent env) txt) s) = None \<and>
         error (fst (handleSubmit_afterSpeech env (generateSpeechFromText (generateContent env) txt) s)) =
           Some ''Failed to generate audio.'' \<and>
         calls (fst (handleSubmit_afterSpeech env (generateSpeechFromText (generateContent env) txt) s)) =
           calls s \<and>
         audioBuffer (fst (handleSubmit_afterSpeech env (generateSpeechFromText (generateContent env) txt) s)) =
           audioBuffer s"
proof -
  from assms have "generateSpeechFromText (generateContent env) txt = Inr None"
    by (auto simp: generateSpeechFromText_def falsy_def)
  then show ?thesis
    by (simp add: handleSubmit_afterSpeech_def error_message_def)
qed

theorem empty_payload_reported_as_absence_witness:
  "generateContent (demo_env (Some [])) (SpeechRequest ''gemini-2.5-flash-preview-tts''
       (''Say in a clear and engaging news-reader voice: '' @ ''News.'') ''Kore'') =
     Inr (demo_response (Some [])) \<and>
   inline_audio (demo_response (Some [])) = Some [] \<and>
   generateSpeechFromText (generateContent (demo_env (Some []))) ''News.'' = Inr None \<and>
   error (fst (handleSubmit_afterSpeech (demo_env (Some []))
       (generateSpeechFromText (generateContent (demo_env (Some []))) ''News.'') initial_state)) =
     Some ''Failed to generate audio.''"
proof -
  have h1: "generateContent (demo_env (Some [])) (SpeechRequest ''gemini-2.5-flash-preview-tts''
       (''Say in a clear and engaging news-reader voice: '' @ ''News.'') ''Kore'') =
     Inr (demo_response (Some []))"
    by (simp add: demo_env_def)
  have h2: "inline_audio (demo_response (Some [])) = Some []" by simp
  then have h2': "inline_audio (demo_response (Some [])) = None \<or>
      inline_audio (demo_response (Some [])) = Some []" by simp
  note c = empty_payload_reported_as_absence [OF h1 h2', of initial_state]
  from c have c1: "generateSpeechFromText (generateContent (demo_env (Some []))) ''News.'' = Inr None"
    by (rule conjunct1)
  from c have c3: "error (fst (handleSubmit_afterSpeech (demo_env (Some []))
       (generateSpeechFromText (generateContent (demo_env (Some []))) ''News.'') initial_state)) =
     Some ''Failed to generate audio.''"
    by (elim conjE)
  from h1 h2 c1 c3 show ?thesis by (intro conjI)
qed

end
